theory Spec2Isabelle
  imports Complex_Main "HOL-Library.Multiset"
begin

section \<open>Data model\<close>

text \<open>
  The optimizer of \<^verbatim>\<open>optimizer_logic.py\<close> places print tags on plates. A tag is a
  dictionary with the keys COLOR, SIZE and QTY and six optional pass-through keys; the
  optional keys that are present are kept as an association list.
\<close>

datatype error = ZeroDivisionError | ValueError | IndexError

record tag =
  COLOR :: string
  SIZE :: string
  QTY :: int
  optional :: "(string \<times> string) list"

section \<open>The greedy seeder\<close>

subsection \<open>Python list primitives\<close>

text \<open>
  \<^verbatim>\<open>min(xs)\<close> and \<^verbatim>\<open>max(xs)\<close> raise ValueError on an empty list, and
  \<^verbatim>\<open>xs.index(v)\<close> returns the first position of \<open>v\<close> or raises ValueError.
\<close>

fun py_min :: "int list \<Rightarrow> int option" where
  "py_min [] = None"
| "py_min (x # xs) = Some (fold min xs x)"

fun py_max :: "int list \<Rightarrow> int option" where
  "py_max [] = None"
| "py_max (x # xs) = Some (fold max xs x)"

fun py_index :: "int list \<Rightarrow> int \<Rightarrow> nat option" where
  "py_index [] v = None"
| "py_index (x # xs) v = (if x = v then Some 0 else map_option Suc (py_index xs v))"

text \<open>\<^verbatim>\<open>xs.index(min(xs))\<close> and \<^verbatim>\<open>xs.index(max(xs))\<close>.\<close>

definition min_index :: "int list \<Rightarrow> error + nat" where
  "min_index xs =
     (case py_min xs of
        None \<Rightarrow> Inl ValueError
      | Some m \<Rightarrow> (case py_index xs m of None \<Rightarrow> Inl ValueError | Some k \<Rightarrow> Inr k))"

definition max_index :: "int list \<Rightarrow> error + nat" where
  "max_index xs =
     (case py_max xs of
        None \<Rightarrow> Inl ValueError
      | Some m \<Rightarrow> (case py_index xs m of None \<Rightarrow> Inl ValueError | Some k \<Rightarrow> Inr k))"

subsection \<open>assign_ups_proportional\<close>

text \<open>
  The two balancing loops are \<^verbatim>\<open>while\<close> loops, so they are partial functions: the
  value \<open>None\<close> stands for a loop that never returns, \<open>Some (Inl e)\<close> for a raised
  exception and \<open>Some (Inr xs)\<close> for the list the loop leaves behind.
\<close>

definition increment_step :: "int list \<Rightarrow> nat \<Rightarrow> int list" where
  "increment_step raw_ups min_idx = raw_ups[min_idx := raw_ups ! min_idx + 1]"

definition decrement_step :: "int list \<Rightarrow> nat \<Rightarrow> int list" where
  "decrement_step raw_ups max_idx = raw_ups[max_idx := raw_ups ! max_idx - 1]"

partial_function (option) increment_loop :: "int \<Rightarrow> int list \<Rightarrow> (error + int list) option" where
  "increment_loop ups_per_plate raw_ups =
     (if sum_list raw_ups < ups_per_plate then
        (case min_index raw_ups of
           Inl e \<Rightarrow> Some (Inl e)
         | Inr k \<Rightarrow> increment_loop ups_per_plate (increment_step raw_ups k))
      else Some (Inr raw_ups))"

partial_function (option) decrement_loop :: "int \<Rightarrow> int list \<Rightarrow> (error + int list) option" where
  "decrement_loop ups_per_plate raw_ups =
     (if sum_list raw_ups > ups_per_plate then
        (case max_index raw_ups of
           Inl e \<Rightarrow> Some (Inl e)
         | Inr k \<Rightarrow>
             if raw_ups ! k > 1
             then decrement_loop ups_per_plate (decrement_step raw_ups k)
             else Some (Inr raw_ups))
      else Some (Inr raw_ups))"

declare increment_loop.simps [code]
declare decrement_loop.simps [code]

text \<open>
  The share \<^verbatim>\<open>round((item['QTY'] / total_qty) * ups_per_plate)\<close> is computed in
  floating point. The function is therefore parametrised by \<open>round_share\<close>, which maps
  the quantity, the total and the capacity to that rounded share; everything proved below
  holds for every such function. The division raises ZeroDivisionError for the first item
  of a group whose total is zero; for an empty group no division is evaluated.
\<close>

definition assign_ups_proportional ::
  "(int \<Rightarrow> int \<Rightarrow> int \<Rightarrow> int) \<Rightarrow> tag list \<Rightarrow> int \<Rightarrow> (error + int list) option" where
  "assign_ups_proportional round_share grp ups_per_plate =
     (let total_qty = sum_list (map QTY grp) in
      if grp \<noteq> [] \<and> total_qty = 0 then Some (Inl ZeroDivisionError)
      else
        (let raw_ups = map (\<lambda>item. max 1 (round_share (QTY item) total_qty ups_per_plate)) grp
         in case increment_loop ups_per_plate raw_ups of
              None \<Rightarrow> None
            | Some (Inl e) \<Rightarrow> Some (Inl e)
            | Some (Inr raw_ups') \<Rightarrow> decrement_loop ups_per_plate raw_ups'))"

text \<open>
  A reading of \<open>round_share\<close> for concrete runs: the share in exact arithmetic, rounded
  to the nearest integer with ties to the even one, as Python's \<^verbatim>\<open>round\<close> does. It
  agrees with the floating-point value whenever quotient and product are exact, for
  instance when the total is a power of two.
\<close>

definition round_half_even :: "int \<Rightarrow> int \<Rightarrow> int" where
  "round_half_even a b =
     (let q = a div b; r = a mod b
      in if 2 * r < b then q else if 2 * r > b then q + 1 else if even q then q else q + 1)"

definition exact_round_share :: "int \<Rightarrow> int \<Rightarrow> int \<Rightarrow> int" where
  "exact_round_share qty total_qty ups_per_plate =
     (if total_qty < 0 then round_half_even (- (qty * ups_per_plate)) (- total_qty)
      else round_half_even (qty * ups_per_plate) total_qty)"

subsection \<open>The partitions\<close>

text \<open>
  \<^verbatim>\<open>sorted(tags, key=lambda t: t['QTY'], reverse=True)\<close> is a stable sort by
  descending quantity. The first pass puts each tag on the plate with the lowest load,
  the first such plate on ties; \<^verbatim>\<open>min\<close> raises ValueError when there is no plate.
\<close>

definition sorted_tags :: "tag list \<Rightarrow> tag list" where
  "sorted_tags tags = sort_key (\<lambda>t. - QTY t) tags"

fun first_pass :: "tag list \<Rightarrow> tag list list \<Rightarrow> int list \<Rightarrow> error + (tag list list \<times> int list)" where
  "first_pass [] plates plate_loads = Inr (plates, plate_loads)"
| "first_pass (t # rest) plates plate_loads =
     (case min_index plate_loads of
        Inl e \<Rightarrow> Inl e
      | Inr k \<Rightarrow>
          first_pass rest (plates[k := plates ! k @ [t]])
            (plate_loads[k := plate_loads ! k + QTY t]))"

definition initial_balanced_partition :: "tag list \<Rightarrow> int \<Rightarrow> error + tag list list" where
  "initial_balanced_partition tags plate_count =
     (case first_pass (sorted_tags tags) (replicate (nat plate_count) [])
             (replicate (nat plate_count) 0) of
        Inl e \<Rightarrow> Inl e
      | Inr (plates, plate_loads) \<Rightarrow> Inr plates)"

text \<open>
  The second pass of \<^verbatim>\<open>initial_balanced_partition_no_singles\<close> visits the plates in
  index order. A plate holding exactly one tag is cleared and its load set to zero; the
  tag then goes to the plate whose load is now lowest.
\<close>

fun second_pass :: "nat list \<Rightarrow> tag list list \<Rightarrow> int list \<Rightarrow> error + (tag list list \<times> int list)" where
  "second_pass [] plates plate_loads = Inr (plates, plate_loads)"
| "second_pass (i # rest) plates plate_loads =
     (if length (plates ! i) = 1 then
        (let single_tag = plates ! i ! 0;
             plates1 = plates[i := []];
             loads1 = plate_loads[i := 0]
         in case min_index loads1 of
              Inl e \<Rightarrow> Inl e
            | Inr k \<Rightarrow>
                second_pass rest (plates1[k := plates1 ! k @ [single_tag]])
                  (loads1[k := loads1 ! k + QTY single_tag]))
      else second_pass rest plates plate_loads)"

definition initial_balanced_partition_no_singles :: "tag list \<Rightarrow> int \<Rightarrow> error + tag list list" where
  "initial_balanced_partition_no_singles tags plate_count =
     (case first_pass (sorted_tags tags) (replicate (nat plate_count) [])
             (replicate (nat plate_count) 0) of
        Inl e \<Rightarrow> Inl e
      | Inr (plates, plate_loads) \<Rightarrow>
          (case second_pass [0..<length plates] plates plate_loads of
             Inl e \<Rightarrow> Inl e
           | Inr (plates', plate_loads') \<Rightarrow> Inr plates'))"

subsection \<open>greedy_initialize\<close>

text \<open>
  The loop over \<^verbatim>\<open>enumerate(partitions)\<close>: an empty group is skipped, a non-empty
  one contributes one triple (tag, plate index, ups) per tag.
\<close>

fun seed_groups ::
  "(int \<Rightarrow> int \<Rightarrow> int \<Rightarrow> int) \<Rightarrow> int \<Rightarrow> (nat \<times> tag list) list \<Rightarrow>
     (tag \<times> nat \<times> int) list \<Rightarrow> (error + (tag \<times> nat \<times> int) list) option" where
  "seed_groups round_share ups_per_plate [] initial_assignment = Some (Inr initial_assignment)"
| "seed_groups round_share ups_per_plate ((plate_index, grp) # rest) initial_assignment =
     (if grp \<noteq> [] then
        (case assign_ups_proportional round_share grp ups_per_plate of
           None \<Rightarrow> None
         | Some (Inl e) \<Rightarrow> Some (Inl e)
         | Some (Inr ups_list) \<Rightarrow>
             seed_groups round_share ups_per_plate rest
               (initial_assignment @ map (\<lambda>(t, ups). (t, plate_index, ups)) (zip grp ups_list)))
      else seed_groups round_share ups_per_plate rest initial_assignment)"

text \<open>The local variable \<^verbatim>\<open>partitions\<close>: the repaired partition above 100 tags.\<close>

definition greedy_partitions :: "tag list \<Rightarrow> int \<Rightarrow> error + tag list list" where
  "greedy_partitions tags plate_count =
     (if length tags > 100
      then initial_balanced_partition_no_singles tags plate_count
      else initial_balanced_partition tags plate_count)"

definition greedy_initialize ::
  "(int \<Rightarrow> int \<Rightarrow> int \<Rightarrow> int) \<Rightarrow> tag list \<Rightarrow> int \<Rightarrow> int \<Rightarrow>
     (error + (tag \<times> nat \<times> int) list) option" where
  "greedy_initialize round_share tags ups_per_plate plate_count =
     (case greedy_partitions tags plate_count of
        Inl e \<Rightarrow> Some (Inl e)
      | Inr partitions \<Rightarrow>
          seed_groups round_share ups_per_plate (zip [0..<length partitions] partitions) [])"

section \<open>The constraint model\<close>

subsection \<open>Variables and constraints\<close>

text \<open>
  \<^verbatim>\<open>solve_plate_optimization\<close> builds a CP-SAT model: it creates integer and Boolean
  variables and adds constraints to the model object. The model is kept as data. A
  variable is named after the Python list it is stored in and its indices (tag \<open>i\<close>,
  plate \<open>j\<close>); a Boolean variable is an integer variable with the domain 0..1.
\<close>

datatype var =
    Tag_plate nat
  | Ups nat
  | Plate_sheet nat
  | Plate_used nat
  | Tag_on_plate nat nat
  | Prod_tag_plate nat nat
  | Active_ups nat nat
  | Total_ups_plate nat
  | Tag_count_plate nat
  | Single_tag_indicator nat
  | Only_one_tag_plate nat
  | Under_utilized_plate nat
  | Forbidden_combo nat

text \<open>A literal is a Boolean variable \<open>b\<close> or its negation \<^verbatim>\<open>b.Not()\<close>.\<close>

datatype literal = Pos var | Neg var

fun negated :: "literal \<Rightarrow> literal" where
  "negated (Pos b) = Neg b"
| "negated (Neg b) = Pos b"

datatype linear = Lin_var var | Lin_const int | Lin_sum "var list"

datatype constraint_body =
    Lin_eq linear linear
  | Lin_ne linear linear
  | Lin_ge linear linear
  | Multiplication_equality var var var
  | Bool_or "literal list"
  | Bool_and "literal list"
  | Implication literal literal

text \<open>
  \<^verbatim>\<open>model.Add(c)\<close> and its siblings add a constraint that always holds;
  \<^verbatim>\<open>.OnlyEnforceIf(b)\<close> makes it hold only where the literal \<open>b\<close> is true.
\<close>

datatype constraint = Always constraint_body | Only_enforce_if constraint_body literal

record cp_model =
  variables :: "(var \<times> int \<times> int) list"
  constraints :: "constraint list"
  hints :: "(var \<times> int) list"
  minimize :: "var list"

subsection \<open>What the solver takes the model to mean\<close>

text \<open>
  An assignment gives every variable an integer. It satisfies the model when every
  variable lies in its domain and every constraint holds, with the usual reading of the
  CP-SAT constraint classes: \<^verbatim>\<open>AddMultiplicationEquality(t, [a, b])\<close> is
  \<open>t = a * b\<close>, \<^verbatim>\<open>AddBoolOr\<close> asks for one true literal, \<^verbatim>\<open>AddBoolAnd\<close> for all,
  \<^verbatim>\<open>AddImplication(a, b)\<close> is \<open>a \<longrightarrow> b\<close>. Hints do not restrict the assignments.
\<close>

type_synonym assignment = "var \<Rightarrow> int"

fun literal_true :: "assignment \<Rightarrow> literal \<Rightarrow> bool" where
  "literal_true v (Pos b) = (v b = 1)"
| "literal_true v (Neg b) = (v b = 0)"

fun linear_value :: "assignment \<Rightarrow> linear \<Rightarrow> int" where
  "linear_value v (Lin_var x) = v x"
| "linear_value v (Lin_const c) = c"
| "linear_value v (Lin_sum xs) = sum_list (map v xs)"

fun body_holds :: "assignment \<Rightarrow> constraint_body \<Rightarrow> bool" where
  "body_holds v (Lin_eq a b) = (linear_value v a = linear_value v b)"
| "body_holds v (Lin_ne a b) = (linear_value v a \<noteq> linear_value v b)"
| "body_holds v (Lin_ge a b) = (linear_value v a \<ge> linear_value v b)"
| "body_holds v (Multiplication_equality t a b) = (v t = v a * v b)"
| "body_holds v (Bool_or ls) = list_ex (literal_true v) ls"
| "body_holds v (Bool_and ls) = list_all (literal_true v) ls"
| "body_holds v (Implication a b) = (literal_true v a \<longrightarrow> literal_true v b)"

fun constraint_holds :: "assignment \<Rightarrow> constraint \<Rightarrow> bool" where
  "constraint_holds v (Always c) = body_holds v c"
| "constraint_holds v (Only_enforce_if c b) = (literal_true v b \<longrightarrow> body_holds v c)"

definition in_domain :: "assignment \<Rightarrow> var \<times> int \<times> int \<Rightarrow> bool" where
  "in_domain v d = (case d of (x, lb, ub) \<Rightarrow> lb \<le> v x \<and> v x \<le> ub)"

definition satisfies :: "assignment \<Rightarrow> cp_model \<Rightarrow> bool" where
  "satisfies v m = (list_all (in_domain v) (variables m) \<and> list_all (constraint_holds v) (constraints m))"

definition objective_value :: "assignment \<Rightarrow> cp_model \<Rightarrow> int" where
  "objective_value v m = sum_list (map v (minimize m))"

subsection \<open>The model built by solve_plate_optimization\<close>

text \<open>The variable lists \<^verbatim>\<open>tag_to_plate\<close>, \<^verbatim>\<open>ups_vars\<close> and \<^verbatim>\<open>plate_sheets\<close>.\<close>

definition tag_to_plate_vars :: "nat \<Rightarrow> var list" where
  "tag_to_plate_vars num_tags = map Tag_plate [0..<num_tags]"

definition ups_vars_list :: "nat \<Rightarrow> var list" where
  "ups_vars_list num_tags = map Ups [0..<num_tags]"

definition plate_sheets_vars :: "int \<Rightarrow> var list" where
  "plate_sheets_vars plate_count = map Plate_sheet [0..<nat plate_count]"

text \<open>
  The hints: \<^verbatim>\<open>tag_to_plate[i]\<close> and \<^verbatim>\<open>ups_vars[i]\<close> are indexed by the position
  in the seed, which raises IndexError when the seed is longer than the tag list.
\<close>

definition seed_hints :: "(tag \<times> nat \<times> int) list \<Rightarrow> (var \<times> int) list" where
  "seed_hints seed_solution =
     concat (map (\<lambda>(i, (t, plate_index, ups)). [(Tag_plate i, int plate_index), (Ups i, ups)])
       (zip [0..<length seed_solution] seed_solution))"

text \<open>The variables, in the order of their creation, with their domains.\<close>

definition model_variables :: "nat \<Rightarrow> int \<Rightarrow> int \<Rightarrow> bool \<Rightarrow> (var \<times> int \<times> int) list" where
  "model_variables num_tags ups_per_plate plate_count enforce_min_tags =
     (let all_plates = [0..<nat plate_count] in
      map (\<lambda>i. (Tag_plate i, 0, plate_count - 1)) [0..<num_tags]
      @ map (\<lambda>i. (Ups i, 1, ups_per_plate)) [0..<num_tags]
      @ map (\<lambda>j. (Plate_sheet j, 1, 10000)) all_plates
      @ map (\<lambda>j. (Plate_used j, 0, 1)) all_plates
      @ concat (map (\<lambda>i. map (\<lambda>j. (Tag_on_plate i j, 0, 1)) all_plates) [0..<num_tags])
      @ concat (map (\<lambda>j. map (\<lambda>i. (Prod_tag_plate i j, 1, 1000000)) [0..<num_tags]) all_plates)
      @ concat (map (\<lambda>j.
          map (\<lambda>i. (Active_ups i j, 0, ups_per_plate)) [0..<num_tags]
          @ [(Total_ups_plate j, 0, ups_per_plate), (Tag_count_plate j, 0, int num_tags)]
          @ (if enforce_min_tags then [(Single_tag_indicator j, 0, 1)]
             else [(Only_one_tag_plate j, 0, 1), (Under_utilized_plate j, 0, 1),
                   (Forbidden_combo j, 0, 1)])) all_plates))"

text \<open>The body of the first loop over the plates (assignment, capacity, plate usage).\<close>

definition plate_assignment_constraints :: "tag list \<Rightarrow> nat \<Rightarrow> constraint list" where
  "plate_assignment_constraints tags j =
     (let num_tags = length tags;
          used_bools = map (\<lambda>i. Pos (Tag_on_plate i j)) [0..<num_tags]
      in concat (map (\<lambda>i.
           [Only_enforce_if (Lin_eq (Lin_var (Tag_plate i)) (Lin_const (int j))) (Pos (Tag_on_plate i j)),
            Only_enforce_if (Lin_ne (Lin_var (Tag_plate i)) (Lin_const (int j))) (Neg (Tag_on_plate i j)),
            Always (Multiplication_equality (Prod_tag_plate i j) (Plate_sheet j) (Ups i)),
            Only_enforce_if (Lin_ge (Lin_var (Prod_tag_plate i j)) (Lin_const (QTY (tags ! i))))
              (Pos (Tag_on_plate i j))]) [0..<num_tags])
         @ [Only_enforce_if (Bool_or used_bools) (Pos (Plate_used j)),
            Only_enforce_if (Bool_and (map negated used_bools)) (Neg (Plate_used j))])"

text \<open>The body of the second loop over the plates (full occupancy, minimum occupancy).\<close>

definition plate_occupancy_constraints :: "nat \<Rightarrow> int \<Rightarrow> bool \<Rightarrow> nat \<Rightarrow> constraint list" where
  "plate_occupancy_constraints num_tags ups_per_plate enforce_min_tags j =
     (let ups_sum = map (\<lambda>i. Active_ups i j) [0..<num_tags];
          tag_count_sum = map (\<lambda>i. Tag_on_plate i j) [0..<num_tags]
      in map (\<lambda>i. Always (Multiplication_equality (Active_ups i j) (Ups i) (Tag_on_plate i j)))
           [0..<num_tags]
         @ [Always (Lin_eq (Lin_var (Total_ups_plate j)) (Lin_sum ups_sum)),
            Only_enforce_if (Lin_eq (Lin_var (Total_ups_plate j)) (Lin_const ups_per_plate))
              (Pos (Plate_used j)),
            Only_enforce_if (Lin_eq (Lin_var (Total_ups_plate j)) (Lin_const 0))
              (Neg (Plate_used j))]
         @ (if enforce_min_tags then
              [Always (Lin_eq (Lin_var (Tag_count_plate j)) (Lin_sum tag_count_sum)),
               Only_enforce_if (Lin_ge (Lin_var (Tag_count_plate j)) (Lin_const 2))
                 (Pos (Plate_used j)),
               Only_enforce_if (Lin_eq (Lin_var (Tag_count_plate j)) (Lin_const 1))
                 (Pos (Single_tag_indicator j)),
               Only_enforce_if (Lin_ne (Lin_var (Tag_count_plate j)) (Lin_const 1))
                 (Neg (Single_tag_indicator j)),
               Always (Implication (Pos (Single_tag_indicator j)) (Neg (Plate_used j)))]
            else
              [Always (Lin_eq (Lin_var (Tag_count_plate j)) (Lin_sum tag_count_sum)),
               Only_enforce_if (Lin_eq (Lin_var (Tag_count_plate j)) (Lin_const 1))
                 (Pos (Only_one_tag_plate j)),
               Only_enforce_if (Lin_ne (Lin_var (Tag_count_plate j)) (Lin_const 1))
                 (Neg (Only_one_tag_plate j)),
               Only_enforce_if (Lin_eq (Lin_var (Total_ups_plate j)) (Lin_const ups_per_plate))
                 (Pos (Under_utilized_plate j)),
               Only_enforce_if (Lin_ne (Lin_var (Total_ups_plate j)) (Lin_const ups_per_plate))
                 (Neg (Under_utilized_plate j)),
               Only_enforce_if (Bool_and [Pos (Only_one_tag_plate j), Pos (Under_utilized_plate j)])
                 (Pos (Forbidden_combo j)),
               Always (Lin_eq (Lin_var (Forbidden_combo j)) (Lin_const 0))]))"

definition build_model :: "tag list \<Rightarrow> int \<Rightarrow> int \<Rightarrow> (tag \<times> nat \<times> int) list \<Rightarrow> cp_model" where
  "build_model tags ups_per_plate plate_count seed_solution =
     (let num_tags = length tags;
          all_plates = [0..<nat plate_count];
          enforce_min_tags = (length tags > 100)
      in \<lparr>variables = model_variables num_tags ups_per_plate plate_count enforce_min_tags,
          constraints =
            concat (map (plate_assignment_constraints tags) all_plates)
            @ concat (map (plate_occupancy_constraints num_tags ups_per_plate enforce_min_tags)
                all_plates),
          hints = seed_hints seed_solution,
          minimize = plate_sheets_vars plate_count\<rparr>)"

section \<open>The best-solution tracker\<close>

text \<open>
  A row of the results extends the tag's COLOR, SIZE and QTY; its \<open>optional\<close> part holds
  the pass-through keys that the tag has. PLATE is the one-character label
  \<^verbatim>\<open>chr(65 + j)\<close>, kept as its code point; \<^verbatim>\<open>chr\<close> is defined up to code point
  1114111, far above any plate index a model of this size can carry.
\<close>

record result = tag +
  PLATE :: nat
  OPTIMAL_UPS :: int
  SHEETS_NEEDED :: int
  QTY_PRODUCED :: int
  EXCESS :: int

text \<open>
  The waste percentage is a floating-point number,
  \<^verbatim>\<open>round((totalExcess / totalProduced) * 100, 2)\<close>, or \<^verbatim>\<open>0.0\<close> when nothing was
  produced; it is kept as the two integers it is computed from.
\<close>

datatype waste = Waste_zero | Waste_round2 int int

record summary =
  totalSheets :: int
  totalProduced :: int
  totalExcess :: int
  wastePercentage :: waste
  totalPlates :: int
  totalItems :: int
  upsCapacity :: int

record solution =
  results :: "result list"
  summary :: summary

definition passthrough_fields :: "string list" where
  "passthrough_fields =
     [''ITEM_DESCRIPTION'', ''ITEM_CODE'', ''PRICE'', ''EP_NO'', ''RUN'', ''SHEET'']"

definition result_row :: "var list \<Rightarrow> var list \<Rightarrow> tag list \<Rightarrow> assignment \<Rightarrow> nat \<Rightarrow> nat \<Rightarrow> result" where
  "result_row ups_vars plate_sheets tags val j i =
     (let ups = val (ups_vars ! i);
          sheets = val (plate_sheets ! j);
          produced = ups * sheets;
          item = tags ! i
      in \<lparr>COLOR = COLOR item, SIZE = SIZE item, QTY = QTY item,
          optional = List.map_filter (\<lambda>field. map_option (Pair field) (map_of (optional item) field))
                       passthrough_fields,
          PLATE = 65 + j, OPTIMAL_UPS = ups, SHEETS_NEEDED = sheets,
          QTY_PRODUCED = produced, EXCESS = produced - QTY item\<rparr>)"

text \<open>
  The nested loops over the plates and the tags: a row for every tag \<open>i\<close> whose plate
  variable has the value \<open>j\<close>, plate by plate.
\<close>

definition materialize_results ::
  "var list \<Rightarrow> var list \<Rightarrow> var list \<Rightarrow> tag list \<Rightarrow> int \<Rightarrow> assignment \<Rightarrow> result list" where
  "materialize_results tag_to_plate ups_vars plate_sheets tags plate_count val =
     concat (map (\<lambda>j. map (result_row ups_vars plate_sheets tags val j)
                        (filter (\<lambda>i. val (tag_to_plate ! i) = int j) [0..<length tags]))
               [0..<nat plate_count])"

definition materialize ::
  "var list \<Rightarrow> var list \<Rightarrow> var list \<Rightarrow> tag list \<Rightarrow> int \<Rightarrow> int \<Rightarrow> assignment \<Rightarrow> solution" where
  "materialize tag_to_plate ups_vars plate_sheets tags plate_count ups_per_plate val =
     (let rows = materialize_results tag_to_plate ups_vars plate_sheets tags plate_count val;
          total_produced = sum_list (map QTY_PRODUCED rows);
          total_items = sum_list (map QTY tags);
          total_sheets = sum_list (map val plate_sheets);
          total_excess = total_produced - total_items;
          waste = (if total_produced \<noteq> 0 then Waste_round2 total_excess total_produced
                   else Waste_zero)
      in \<lparr>results = rows,
          summary = \<lparr>totalSheets = total_sheets, totalProduced = total_produced,
                     totalExcess = total_excess, wastePercentage = waste,
                     totalPlates = plate_count, totalItems = total_items,
                     upsCapacity = ups_per_plate\<rparr>\<rparr>)"

text \<open>
  The mutable fields of \<^verbatim>\<open>PlateOptimizationCallback\<close>; the constructor's arguments
  never change and are passed along as arguments. \<open>best_obj = None\<close> stands for
  \<^verbatim>\<open>float('inf')\<close>. The clock \<^verbatim>\<open>time.time()\<close> is an input: the constructor and
  every notification bring the readings they take. The verbose output is left out.
\<close>

record callback =
  best_solution :: "solution option"
  best_obj :: "int option"
  solution_count :: nat
  use_improvement_stopping :: bool
  last_improvement_time :: real
  improvement_timeout :: real
  stop_search_called :: bool

record notification =
  Value :: assignment
  clock_on_improvement :: real
  clock_on_check :: real

definition new_callback :: "tag list \<Rightarrow> real \<Rightarrow> callback" where
  "new_callback tags now =
     \<lparr>best_solution = None, best_obj = None, solution_count = 0,
      use_improvement_stopping = (length tags > 100),
      last_improvement_time = now, improvement_timeout = 600,
      stop_search_called = False\<rparr>"

definition improves :: "int \<Rightarrow> int option \<Rightarrow> bool" where
  "improves obj best = (case best of None \<Rightarrow> True | Some b \<Rightarrow> obj < b)"

definition on_solution_callback ::
  "var list \<Rightarrow> var list \<Rightarrow> var list \<Rightarrow> tag list \<Rightarrow> int \<Rightarrow> int \<Rightarrow>
     notification \<Rightarrow> callback \<Rightarrow> callback" where
  "on_solution_callback tag_to_plate ups_vars plate_sheets tags plate_count ups_per_plate n cb =
     (let cb1 = cb\<lparr>solution_count := solution_count cb + 1\<rparr>;
          obj = sum_list (map (Value n) plate_sheets);
          cb2 = (if improves obj (best_obj cb1) then
                   cb1\<lparr>best_obj := Some obj,
                       last_improvement_time :=
                         (if use_improvement_stopping cb1 then clock_on_improvement n
                          else last_improvement_time cb1),
                       best_solution :=
                         Some (materialize tag_to_plate ups_vars plate_sheets tags plate_count
                                 ups_per_plate (Value n))\<rparr>
                 else cb1)
      in if use_improvement_stopping cb2 \<and>
            clock_on_check n - last_improvement_time cb2 \<ge> improvement_timeout cb2
         then cb2\<lparr>stop_search_called := True\<rparr>
         else cb2)"

section \<open>solve_plate_optimization\<close>

text \<open>
  The search itself belongs to the external solver. It is an argument: \<open>solver\<close> gives,
  for a model, the notifications it sends to the callback, in order. A search ends after
  the notification in which the callback called \<^verbatim>\<open>StopSearch\<close>.
\<close>

fun solve_with_solution_callback ::
  "var list \<Rightarrow> var list \<Rightarrow> var list \<Rightarrow> tag list \<Rightarrow> int \<Rightarrow> int \<Rightarrow>
     notification list \<Rightarrow> callback \<Rightarrow> callback" where
  "solve_with_solution_callback tag_to_plate ups_vars plate_sheets tags plate_count ups_per_plate
     [] cb = cb"
| "solve_with_solution_callback tag_to_plate ups_vars plate_sheets tags plate_count ups_per_plate
     (n # ns) cb =
     (let cb' = on_solution_callback tag_to_plate ups_vars plate_sheets tags plate_count
                  ups_per_plate n cb
      in if stop_search_called cb' then cb'
         else solve_with_solution_callback tag_to_plate ups_vars plate_sheets tags plate_count
                ups_per_plate ns cb')"

text \<open>
  The validation after the search counts the rows of every plate label, in the order of
  their first appearance, and lists the labels counted once. Its outcome is only printed.
\<close>

fun count_plate :: "nat \<Rightarrow> (nat \<times> nat) list \<Rightarrow> (nat \<times> nat) list" where
  "count_plate plate [] = [(plate, 1)]"
| "count_plate plate ((p, c) # rest) =
     (if p = plate then (p, c + 1) # rest else (p, c) # count_plate plate rest)"

definition plate_tag_counts :: "result list \<Rightarrow> (nat \<times> nat) list" where
  "plate_tag_counts rows = fold (\<lambda>r counts. count_plate (PLATE r) counts) rows []"

definition single_tag_plates :: "solution \<Rightarrow> nat list" where
  "single_tag_plates sol =
     map fst (filter (\<lambda>(plate, count). count = 1) (plate_tag_counts (results sol)))"

text \<open>
  The function returns the tracker's best solution, or the dictionary
  \<^verbatim>\<open>{"error": "No solution found"}\<close>. A best solution is a dictionary with two keys,
  so \<^verbatim>\<open>if cb.best_solution\<close> tests that it is not \<^verbatim>\<open>None\<close>.
\<close>

datatype response = Error_object string | Solution_object solution

definition tracker_after_search ::
  "(cp_model \<Rightarrow> notification list) \<Rightarrow> real \<Rightarrow> tag list \<Rightarrow> int \<Rightarrow> int \<Rightarrow>
     (tag \<times> nat \<times> int) list \<Rightarrow> callback" where
  "tracker_after_search solver now tags ups_per_plate plate_count seed_solution =
     (let num_tags = length tags;
          tag_to_plate = tag_to_plate_vars num_tags;
          ups_vars = ups_vars_list num_tags;
          plate_sheets = plate_sheets_vars plate_count;
          model = build_model tags ups_per_plate plate_count seed_solution;
          cb = new_callback tags now
      in solve_with_solution_callback tag_to_plate ups_vars plate_sheets tags plate_count
           ups_per_plate (solver model) cb)"

definition solve_plate_optimization ::
  "(cp_model \<Rightarrow> notification list) \<Rightarrow> real \<Rightarrow> tag list \<Rightarrow> int \<Rightarrow> int \<Rightarrow>
     (tag \<times> nat \<times> int) list \<Rightarrow> error + response" where
  "solve_plate_optimization solver now tags ups_per_plate plate_count seed_solution =
     (if length seed_solution > length tags then Inl IndexError
      else
        (let cb = tracker_after_search solver now tags ups_per_plate plate_count seed_solution
         in case best_solution cb of
              Some sol \<Rightarrow> Inr (Solution_object sol)
            | None \<Rightarrow> Inr (Error_object ''No solution found'')))"

text \<open>A solver is sound when it only reports assignments that satisfy the model.\<close>

definition sound_solver :: "(cp_model \<Rightarrow> notification list) \<Rightarrow> bool" where
  "sound_solver solver = (\<forall>m. \<forall>n\<in>set (solver m). satisfies (Value n) m)"

section \<open>Reading an assignment\<close>

text \<open>
  The tags that an assignment puts on plate \<open>j\<close> (those whose \<^verbatim>\<open>tag_on_plate[i][j]\<close>
  is true), the sum of their ups, the plates that are used and those that are not, and
  the sheets of a list of plates.
\<close>

definition tags_on_plate :: "assignment \<Rightarrow> nat \<Rightarrow> nat \<Rightarrow> nat list" where
  "tags_on_plate v num_tags j = filter (\<lambda>i. v (Tag_on_plate i j) = 1) [0..<num_tags]"

definition ups_on_plate :: "assignment \<Rightarrow> nat \<Rightarrow> nat \<Rightarrow> int" where
  "ups_on_plate v num_tags j = sum_list (map (\<lambda>i. v (Ups i)) (tags_on_plate v num_tags j))"

definition used_plates :: "assignment \<Rightarrow> int \<Rightarrow> nat list" where
  "used_plates v plate_count = filter (\<lambda>j. v (Plate_used j) = 1) [0..<nat plate_count]"

definition unused_plates :: "assignment \<Rightarrow> int \<Rightarrow> nat list" where
  "unused_plates v plate_count = filter (\<lambda>j. v (Plate_used j) \<noteq> 1) [0..<nat plate_count]"

definition sheets_of :: "assignment \<Rightarrow> nat list \<Rightarrow> int" where
  "sheets_of v js = sum_list (map (\<lambda>j. v (Plate_sheet j)) js)"

text \<open>The rows of a solution that carry a given plate label.\<close>

definition rows_of_plate :: "nat \<Rightarrow> result list \<Rightarrow> result list" where
  "rows_of_plate label rows = filter (\<lambda>r. PLATE r = label) rows"

section \<open>Concrete instances\<close>

text \<open>
  A full assignment from the decisions alone: the plate and the ups of every tag and the
  sheets of every plate; every auxiliary variable gets the value its defining constraint
  asks for, and \<^verbatim>\<open>forbidden_combo\<close> is 0.
\<close>

definition assignment_of :: "int list \<Rightarrow> int list \<Rightarrow> int list \<Rightarrow> int \<Rightarrow> assignment" where
  "assignment_of tag_plates tag_ups plate_sheet_counts ups_per_plate x =
     (let on_plate = (\<lambda>i j. tag_plates ! i = int j);
          total = (\<lambda>j. sum_list (map snd (filter (\<lambda>(p, u). p = int j) (zip tag_plates tag_ups))));
          count = (\<lambda>j. int (length (filter (\<lambda>p. p = int j) tag_plates)))
      in case x of
           Tag_plate i \<Rightarrow> tag_plates ! i
         | Ups i \<Rightarrow> tag_ups ! i
         | Plate_sheet j \<Rightarrow> plate_sheet_counts ! j
         | Plate_used j \<Rightarrow> (if count j = 0 then 0 else 1)
         | Tag_on_plate i j \<Rightarrow> (if on_plate i j then 1 else 0)
         | Prod_tag_plate i j \<Rightarrow> plate_sheet_counts ! j * tag_ups ! i
         | Active_ups i j \<Rightarrow> (if on_plate i j then tag_ups ! i else 0)
         | Total_ups_plate j \<Rightarrow> total j
         | Tag_count_plate j \<Rightarrow> count j
         | Single_tag_indicator j \<Rightarrow> (if count j = 1 then 1 else 0)
         | Only_one_tag_plate j \<Rightarrow> (if count j = 1 then 1 else 0)
         | Under_utilized_plate j \<Rightarrow> (if total j = ups_per_plate then 1 else 0)
         | Forbidden_combo j \<Rightarrow> 0)"

definition plain_tag :: "int \<Rightarrow> tag" where
  "plain_tag q = \<lparr>COLOR = ''Black'', SIZE = ''M'', QTY = q, optional = []\<rparr>"

text \<open>Three tags of 100, 50 and 30 copies, four ups per plate, two plates.\<close>

definition three_tags :: "tag list" where
  "three_tags = [plain_tag 100, plain_tag 50, plain_tag 30]"

definition three_tags_assignment :: assignment where
  "three_tags_assignment = assignment_of [1, 0, 1] [3, 4, 1] [13, 34] 4"

text \<open>Two tags of one copy each on the first of two plates; the second plate is empty.\<close>

definition two_tags :: "tag list" where
  "two_tags = [plain_tag 1, plain_tag 1]"

definition two_tags_assignment :: assignment where
  "two_tags_assignment = assignment_of [0, 0] [1, 1] [1, 1] 2"

text \<open>A large instance: 101 tags of one copy each, one plate with 101 ups.\<close>

definition many_tags :: "tag list" where
  "many_tags = replicate 101 (plain_tag 1)"

definition many_tags_assignment :: assignment where
  "many_tags_assignment = assignment_of (replicate 101 0) (replicate 101 1) [1] 101"

text \<open>A large instance for the seeder: one tag of 1000 copies and 100 tags of one copy.\<close>

definition one_big_tag :: "tag list" where
  "one_big_tag = plain_tag 1000 # replicate 100 (plain_tag 1)"


definition no_report :: "cp_model \<Rightarrow> notification list" where
  "no_report m = []"

section \<open>Properties of the seeder\<close>

lemma fold_min_le: "fold min xs (a::int) \<le> a \<and> (\<forall>y\<in>set xs. fold min xs a \<le> y)"
proof (induction xs arbitrary: a)
  case Nil
  then show ?case by simp
next
  case (Cons x xs)
  have "fold min xs (min x a) \<le> min x a" using Cons.IH by blast
  then show ?case using Cons.IH[of "min x a"] by auto
qed

lemma fold_min_mem: "fold min xs (a::int) \<in> insert a (set xs)"
proof (induction xs arbitrary: a)
  case Nil
  then show ?case by simp
next
  case (Cons x xs)
  show ?case using Cons.IH[of "min x a"] by (auto simp: min_def split: if_splits)
qed

lemma fold_max_ge: "a \<le> fold max xs (a::int) \<and> (\<forall>y\<in>set xs. y \<le> fold max xs a)"
proof (induction xs arbitrary: a)
  case Nil
  then show ?case by simp
next
  case (Cons x xs)
  have "max x a \<le> fold max xs (max x a)" using Cons.IH by blast
  then show ?case using Cons.IH[of "max x a"] by auto
qed

lemma fold_max_mem: "fold max xs (a::int) \<in> insert a (set xs)"
proof (induction xs arbitrary: a)
  case Nil
  then show ?case by simp
next
  case (Cons x xs)
  show ?case using Cons.IH[of "max x a"] by (auto simp: max_def split: if_splits)
qed

lemma py_index_mem: "v \<in> set xs \<Longrightarrow> \<exists>k. py_index xs v = Some k \<and> k < length xs \<and> xs ! k = v"
  by (induction xs) auto

lemma min_index_nonempty:
  assumes "xs \<noteq> []"
  shows "\<exists>k. min_index xs = Inr k \<and> k < length xs \<and> (\<forall>y\<in>set xs. xs ! k \<le> y)"
proof -
  obtain a rest where xs: "xs = a # rest" using assms by (cases xs) auto
  let ?m = "fold min rest a"
  have mem: "?m \<in> set xs" using fold_min_mem[where xs=rest and a=a] xs by simp
  have le: "\<forall>y\<in>set xs. ?m \<le> y" using fold_min_le[where xs=rest and a=a] xs by auto
  obtain k where k: "py_index xs ?m = Some k" "k < length xs" "xs ! k = ?m"
    using py_index_mem[OF mem] by blast
  have "min_index xs = Inr k" using k(1) xs by (simp add: min_index_def)
  then show ?thesis using k le by auto
qed

lemma max_index_nonempty:
  assumes "xs \<noteq> []"
  shows "\<exists>k. max_index xs = Inr k \<and> k < length xs \<and> (\<forall>y\<in>set xs. y \<le> xs ! k)"
proof -
  obtain a rest where xs: "xs = a # rest" using assms by (cases xs) auto
  let ?m = "fold max rest a"
  have mem: "?m \<in> set xs" using fold_max_mem[where xs=rest and a=a] xs by simp
  have ge: "\<forall>y\<in>set xs. y \<le> ?m" using fold_max_ge[where xs=rest and a=a] xs by auto
  obtain k where k: "py_index xs ?m = Some k" "k < length xs" "xs ! k = ?m"
    using py_index_mem[OF mem] by blast
  have "max_index xs = Inr k" using k(1) xs by (simp add: max_index_def)
  then show ?thesis using k ge by auto
qed

lemma sum_list_int_update:
  "k < length xs \<Longrightarrow> sum_list (xs[k := v]) = sum_list xs - xs ! k + (v::int)"
  by (induction xs arbitrary: k) (auto split: nat.splits)

lemma sum_list_increment_step:
  "k < length raw \<Longrightarrow> sum_list (increment_step raw k) = sum_list raw + 1"
  by (simp add: increment_step_def sum_list_int_update)

lemma sum_list_decrement_step:
  "k < length raw \<Longrightarrow> sum_list (decrement_step raw k) = sum_list raw - 1"
  by (simp add: decrement_step_def sum_list_int_update)

lemma increment_loop_returns:
  "xs \<noteq> [] \<Longrightarrow>
     \<exists>ys. increment_loop u xs = Some (Inr ys) \<and> length ys = length xs \<and>
          sum_list ys = max u (sum_list xs) \<and> (\<forall>i<length xs. xs ! i \<le> ys ! i)"
proof (induction "nat (u - sum_list xs)" arbitrary: xs rule: less_induct)
  case less
  show ?case
  proof (cases "sum_list xs < u")
    case False
    then show ?thesis by (subst increment_loop.simps) simp
  next
    case True
    obtain k where k: "min_index xs = Inr k" "k < length xs"
      using min_index_nonempty[OF less.prems] by blast
    let ?xs = "increment_step xs k"
    have s: "sum_list ?xs = sum_list xs + 1" using k by (simp add: sum_list_increment_step)
    have ne: "?xs \<noteq> []" using less.prems by (simp add: increment_step_def)
    have "nat (u - sum_list ?xs) < nat (u - sum_list xs)" using True s by simp
    from less.hyps[OF this ne]
    obtain ys where ys: "increment_loop u ?xs = Some (Inr ys)" "length ys = length ?xs"
      "sum_list ys = max u (sum_list ?xs)" "\<forall>i<length ?xs. ?xs ! i \<le> ys ! i" by blast
    have mono: "\<forall>i<length xs. xs ! i \<le> ?xs ! i"
      using k(2) by (auto simp: increment_step_def nth_list_update)
    have "increment_loop u xs = Some (Inr ys)"
      using True k ys(1) by (subst increment_loop.simps) simp
    moreover have "length ys = length xs" using ys(2) by (simp add: increment_step_def)
    moreover have "sum_list ys = max u (sum_list xs)" using ys(3) s True by simp
    moreover have "\<forall>i<length xs. xs ! i \<le> ys ! i"
      using mono ys(4) by (fastforce simp: increment_step_def)
    ultimately show ?thesis by blast
  qed
qed

lemma decrement_loop_returns:
  "xs \<noteq> [] \<Longrightarrow> \<forall>x\<in>set xs. 1 \<le> x \<Longrightarrow>
     \<exists>ys. decrement_loop u xs = Some (Inr ys) \<and> length ys = length xs \<and>
          (\<forall>y\<in>set ys. 1 \<le> y) \<and>
          (sum_list ys = min u (sum_list xs) \<or> (u < sum_list ys \<and> (\<forall>y\<in>set ys. y = 1)))"
proof (induction "nat (sum_list xs - u)" arbitrary: xs rule: less_induct)
  case less
  show ?case
  proof (cases "u < sum_list xs")
    case False
    then show ?thesis using less.prems by (subst decrement_loop.simps) simp
  next
    case True
    obtain k where k: "max_index xs = Inr k" "k < length xs" "\<forall>y\<in>set xs. y \<le> xs ! k"
      using max_index_nonempty[OF less.prems(1)] by blast
    show ?thesis
    proof (cases "1 < xs ! k")
      case False
      then have "\<forall>y\<in>set xs. y = 1" using k(3) less.prems(2) by fastforce
      moreover have "decrement_loop u xs = Some (Inr xs)"
        using True False k(1) by (subst decrement_loop.simps) simp
      ultimately show ?thesis using True less.prems by auto
    next
      case big: True
      let ?xs = "decrement_step xs k"
      have s: "sum_list ?xs = sum_list xs - 1" using k by (simp add: sum_list_decrement_step)
      have ne: "?xs \<noteq> []" using less.prems by (simp add: decrement_step_def)
      have pos: "\<forall>x\<in>set ?xs. 1 \<le> x"
        using less.prems(2) big unfolding decrement_step_def
        by (auto dest!: set_update_subset_insert[THEN subsetD])
      have "nat (sum_list ?xs - u) < nat (sum_list xs - u)" using True s by simp
      from less.hyps[OF this ne pos]
      obtain ys where ys: "decrement_loop u ?xs = Some (Inr ys)" "length ys = length ?xs"
        "\<forall>y\<in>set ys. 1 \<le> y"
        "sum_list ys = min u (sum_list ?xs) \<or> (u < sum_list ys \<and> (\<forall>y\<in>set ys. y = 1))" by blast
      have "decrement_loop u xs = Some (Inr ys)"
        using True big k(1) ys(1) by (subst decrement_loop.simps) simp
      moreover have "length ys = length xs" using ys(2) by (simp add: decrement_step_def)
      moreover have "sum_list ys = min u (sum_list xs) \<or> (u < sum_list ys \<and> (\<forall>y\<in>set ys. y = 1))"
        using ys(4) s True by auto
      ultimately show ?thesis using ys(3) by blast
    qed
  qed
qed

lemma mset_concat_update:
  "k < length xss \<Longrightarrow> mset (concat (xss[k := ys])) + mset (xss ! k) = mset (concat xss) + mset ys"
  by (induction xss arbitrary: k) (auto split: nat.splits)

lemma first_pass_returns:
  "plate_loads \<noteq> [] \<Longrightarrow> length plates = length plate_loads \<Longrightarrow>
     \<exists>p l. first_pass ts plates plate_loads = Inr (p, l) \<and> length p = length plates \<and>
           length l = length plates \<and> mset (concat p) = mset (concat plates) + mset ts"
proof (induction ts arbitrary: plates plate_loads)
  case Nil
  then show ?case by simp
next
  case (Cons t ts)
  obtain k where k: "min_index plate_loads = Inr k" "k < length plate_loads"
    using min_index_nonempty[OF Cons.prems(1)] by blast
  let ?p = "plates[k := plates ! k @ [t]]"
  let ?l = "plate_loads[k := plate_loads ! k + QTY t]"
  have "?l \<noteq> []" "length ?p = length ?l" using Cons.prems by auto
  from Cons.IH[OF this]
  obtain p l where pl: "first_pass ts ?p ?l = Inr (p, l)" "length p = length ?p"
    "length l = length ?p" "mset (concat p) = mset (concat ?p) + mset ts" by blast
  have "mset (concat ?p) + mset (plates ! k) = mset (concat plates) + mset (plates ! k @ [t])"
    using k(2) Cons.prems(2) by (intro mset_concat_update) simp
  then have "mset (concat ?p) = mset (concat plates) + {#t#}" by simp
  then show ?case using pl k(1) by simp
qed

lemma second_pass_returns:
  "plate_loads \<noteq> [] \<Longrightarrow> length plates = length plate_loads \<Longrightarrow> \<forall>i\<in>set is. i < length plates \<Longrightarrow>
     \<exists>p l. second_pass is plates plate_loads = Inr (p, l) \<and> length p = length plates \<and>
           mset (concat p) = mset (concat plates)"
proof (induction "is" arbitrary: plates plate_loads)
  case Nil
  then show ?case by simp
next
  case (Cons i rest)
  show ?case
  proof (cases "length (plates ! i) = 1")
    case False
    then show ?thesis using Cons.IH[OF Cons.prems(1,2)] Cons.prems(3) by simp
  next
    case True
    obtain s where single: "plates ! i = [s]" using True by (cases "plates ! i") auto
    then have s0: "plates ! i ! 0 = s" by simp
    let ?p1 = "plates[i := []]"
    let ?l1 = "plate_loads[i := 0]"
    have i: "i < length plates" using Cons.prems(3) by simp
    obtain k where k: "min_index ?l1 = Inr k" "k < length ?l1"
      using min_index_nonempty[of ?l1] Cons.prems(1) by auto
    let ?p = "?p1[k := ?p1 ! k @ [s]]"
    let ?l = "?l1[k := ?l1 ! k + QTY s]"
    have "?l \<noteq> []" "length ?p = length ?l" "\<forall>i\<in>set rest. i < length ?p"
      using Cons.prems by auto
    from Cons.IH[OF this]
    obtain p l where pl: "second_pass rest ?p ?l = Inr (p, l)" "length p = length ?p"
      "mset (concat p) = mset (concat ?p)" by blast
    have "mset (concat ?p1) + mset (plates ! i) = mset (concat plates) + mset []"
      using i by (intro mset_concat_update)
    then have a: "mset (concat ?p1) + {#s#} = mset (concat plates)"
      unfolding single by simp
    have "mset (concat ?p) + mset (?p1 ! k) = mset (concat ?p1) + mset (?p1 ! k @ [s])"
      using k(2) Cons.prems(2) by (intro mset_concat_update) simp
    then have "mset (concat ?p) = mset (concat ?p1) + {#s#}" by simp
    then have "mset (concat ?p) = mset (concat plates)" using a by simp
    moreover have "second_pass (i # rest) plates plate_loads = second_pass rest ?p ?l"
      using True k(1) s0 by (simp add: Let_def)
    ultimately show ?thesis using pl by simp
  qed
qed

lemma concat_replicate_Nil: "concat (replicate n []) = []"
  by (induction n) auto

lemma greedy_partitions_returns:
  assumes "1 \<le> plate_count"
  shows "\<exists>parts. greedy_partitions tags plate_count = Inr parts \<and>
           length parts = nat plate_count \<and> mset (concat parts) = mset tags"
proof -
  let ?p0 = "replicate (nat plate_count) ([]::tag list)"
  let ?l0 = "replicate (nat plate_count) (0::int)"
  have ne: "?l0 \<noteq> []" using assms by auto
  have len: "length ?p0 = length ?l0" by simp
  obtain p l where pl: "first_pass (sorted_tags tags) ?p0 ?l0 = Inr (p, l)"
    "length p = length ?p0" "length l = length ?p0"
    "mset (concat p) = mset (concat ?p0) + mset (sorted_tags tags)"
    using first_pass_returns[OF ne len] by blast
  have m: "mset (concat p) = mset tags"
    using pl(4) by (simp add: concat_replicate_Nil sorted_tags_def)
  have lne: "l \<noteq> []" using pl(3) ne by auto
  have "\<forall>i\<in>set [0..<length p]. i < length p" by simp
  from second_pass_returns[OF lne _ this, of ] pl(2,3)
  obtain p' l' where p': "second_pass [0..<length p] p l = Inr (p', l')" "length p' = length p"
    "mset (concat p') = mset (concat p)" by auto
  show ?thesis
    using pl(1,2) p' m
    by (auto simp: greedy_partitions_def initial_balanced_partition_def
        initial_balanced_partition_no_singles_def)
qed

lemma assign_ups_proportional_returns:
  assumes "grp \<noteq> []" "sum_list (map QTY grp) \<noteq> 0"
  shows "\<exists>ups. assign_ups_proportional round_share grp ups_per_plate = Some (Inr ups) \<and>
           length ups = length grp \<and> (\<forall>u\<in>set ups. 1 \<le> u) \<and>
           (sum_list ups = ups_per_plate \<or> (ups_per_plate < sum_list ups \<and> (\<forall>u\<in>set ups. u = 1)))"
proof -
  let ?raw = "map (\<lambda>item. max 1 (round_share (QTY item) (sum_list (map QTY grp)) ups_per_plate)) grp"
  have ne: "?raw \<noteq> []" using assms(1) by simp
  obtain raw1 where r1: "increment_loop ups_per_plate ?raw = Some (Inr raw1)"
    "length raw1 = length ?raw" "sum_list raw1 = max ups_per_plate (sum_list ?raw)"
    "\<forall>i<length ?raw. ?raw ! i \<le> raw1 ! i"
    using increment_loop_returns[OF ne] by blast
  have ne1: "raw1 \<noteq> []" using r1(2) ne by auto
  have pos1: "\<forall>x\<in>set raw1. 1 \<le> x"
  proof
    fix x assume "x \<in> set raw1"
    then obtain i where i: "i < length raw1" "raw1 ! i = x" by (auto simp: in_set_conv_nth)
    then have "?raw ! i \<le> x" using r1(2,4) by auto
    moreover have "1 \<le> ?raw ! i" using i(1) r1(2) by simp
    ultimately show "1 \<le> x" by linarith
  qed
  obtain ups where u: "decrement_loop ups_per_plate raw1 = Some (Inr ups)"
    "length ups = length raw1" "\<forall>y\<in>set ups. 1 \<le> y"
    "sum_list ups = min ups_per_plate (sum_list raw1) \<or>
       (ups_per_plate < sum_list ups \<and> (\<forall>y\<in>set ups. y = 1))"
    using decrement_loop_returns[OF ne1 pos1] by blast
  have "assign_ups_proportional round_share grp ups_per_plate = Some (Inr ups)"
    using assms r1(1) u(1) by (simp add: assign_ups_proportional_def Let_def)
  moreover have "length ups = length grp" using u(2) r1(2) by simp
  moreover have "sum_list ups = ups_per_plate \<or> (ups_per_plate < sum_list ups \<and> (\<forall>u\<in>set ups. u = 1))"
    using u(4) r1(3) by auto
  ultimately show ?thesis using u(3) by blast
qed

lemma assign_ups_proportional_zero:
  "grp \<noteq> [] \<Longrightarrow> sum_list (map QTY grp) = 0 \<Longrightarrow>
     assign_ups_proportional round_share grp ups_per_plate = Some (Inl ZeroDivisionError)"
  by (simp add: assign_ups_proportional_def)

lemma seed_groups_returns:
  "\<forall>x\<in>set igs. snd x \<noteq> [] \<longrightarrow> sum_list (map QTY (snd x)) \<noteq> 0 \<Longrightarrow>
   \<forall>a\<in>set acc. 1 \<le> snd (snd a) \<Longrightarrow>
     \<exists>seed. seed_groups round_share ups_per_plate igs acc = Some (Inr seed) \<and>
       map fst seed = map fst acc @ concat (map snd igs) \<and> (\<forall>a\<in>set seed. 1 \<le> snd (snd a))"
proof (induction igs arbitrary: acc)
  case Nil
  then show ?case by simp
next
  case (Cons ig igs)
  obtain plate_index grp where ig: "ig = (plate_index, grp)" by (cases ig)
  show ?case
  proof (cases "grp = []")
    case True
    then show ?thesis using Cons ig by simp
  next
    case False
    then have nz: "sum_list (map QTY grp) \<noteq> 0" using Cons.prems(1) ig by simp
    obtain ups where ups: "assign_ups_proportional round_share grp ups_per_plate = Some (Inr ups)"
      "length ups = length grp" "\<forall>u\<in>set ups. 1 \<le> u"
      using assign_ups_proportional_returns[OF False nz] by blast
    let ?acc = "acc @ map (\<lambda>(t, ups). (t, plate_index, ups)) (zip grp ups)"
    have p1: "\<forall>x\<in>set igs. snd x \<noteq> [] \<longrightarrow> sum_list (map QTY (snd x)) \<noteq> 0"
      using Cons.prems(1) by simp
    have p2: "\<forall>a\<in>set ?acc. 1 \<le> snd (snd a)"
      using Cons.prems(2) ups(3) by (auto dest: set_zip_rightD)
    obtain seed where seed: "seed_groups round_share ups_per_plate igs ?acc = Some (Inr seed)"
      "map fst seed = map fst ?acc @ concat (map snd igs)" "\<forall>a\<in>set seed. 1 \<le> snd (snd a)"
      using Cons.IH[OF p1 p2] by blast
    have "map fst (map (\<lambda>(t, ups). (t, plate_index, ups)) (zip grp ups)) = grp"
      using ups(2) by (induction grp ups rule: list_induct2') auto
    then have "map fst ?acc = map fst acc @ grp" by simp
    then show ?thesis using seed ups(1) False ig by simp
  qed
qed

lemma seed_groups_zero:
  "\<exists>x\<in>set igs. snd x \<noteq> [] \<and> sum_list (map QTY (snd x)) = 0 \<Longrightarrow>
     seed_groups round_share ups_per_plate igs acc = Some (Inl ZeroDivisionError)"
proof (induction igs arbitrary: acc)
  case Nil
  then show ?case by simp
next
  case (Cons ig igs)
  obtain plate_index grp where ig: "ig = (plate_index, grp)" by (cases ig)
  show ?case
  proof (cases "grp = []")
    case True
    then show ?thesis using Cons ig by auto
  next
    case False
    show ?thesis
    proof (cases "sum_list (map QTY grp) = 0")
      case True
      then show ?thesis using False ig by (simp add: assign_ups_proportional_zero)
    next
      case nz: False
      obtain ups where ups: "assign_ups_proportional round_share grp ups_per_plate = Some (Inr ups)"
        using assign_ups_proportional_returns[OF False nz] by blast
      have "\<exists>x\<in>set igs. snd x \<noteq> [] \<and> sum_list (map QTY (snd x)) = 0"
        using Cons.prems nz ig by auto
      from Cons.IH[OF this] show ?thesis using ups False ig by simp
    qed
  qed
qed

lemma snd_zip_upt: "map snd (zip [0..<length xs] xs) = xs"
  by simp

section \<open>Properties of the model\<close>

lemma satisfies_constraint:
  "satisfies v m \<Longrightarrow> c \<in> set (constraints m) \<Longrightarrow> constraint_holds v c"
  by (simp add: satisfies_def list_all_iff)

lemma satisfies_domain:
  "satisfies v m \<Longrightarrow> (x, lb, ub) \<in> set (variables m) \<Longrightarrow> lb \<le> v x \<and> v x \<le> ub"
  by (auto simp: satisfies_def list_all_iff in_domain_def)

lemma assignment_constraint_in_model:
  "j < nat plate_count \<Longrightarrow> c \<in> set (plate_assignment_constraints tags j) \<Longrightarrow>
     c \<in> set (constraints (build_model tags ups_per_plate plate_count seed_solution))"
  by (auto simp: build_model_def Let_def)

lemma occupancy_constraint_in_model:
  "j < nat plate_count \<Longrightarrow>
   c \<in> set (plate_occupancy_constraints (length tags) ups_per_plate (length tags > 100) j) \<Longrightarrow>
     c \<in> set (constraints (build_model tags ups_per_plate plate_count seed_solution))"
  by (auto simp: build_model_def Let_def)

lemma variables_of_model:
  "variables (build_model tags ups_per_plate plate_count seed_solution) =
     model_variables (length tags) ups_per_plate plate_count (length tags > 100)"
  by (simp add: build_model_def Let_def)

lemma tag_plate_domain:
  "i < num_tags \<Longrightarrow>
     (Tag_plate i, 0, plate_count - 1) \<in> set (model_variables num_tags ups_per_plate plate_count e)"
  by (simp add: model_variables_def Let_def)

lemma ups_domain:
  "i < num_tags \<Longrightarrow>
     (Ups i, 1, ups_per_plate) \<in> set (model_variables num_tags ups_per_plate plate_count e)"
  by (simp add: model_variables_def Let_def)

lemma plate_sheet_domain:
  "j < nat plate_count \<Longrightarrow>
     (Plate_sheet j, 1, 10000) \<in> set (model_variables num_tags ups_per_plate plate_count e)"
  by (simp add: model_variables_def Let_def)

lemma plate_used_domain:
  "j < nat plate_count \<Longrightarrow>
     (Plate_used j, 0, 1) \<in> set (model_variables num_tags ups_per_plate plate_count e)"
  by (simp add: model_variables_def Let_def)

lemma tag_on_plate_domain:
  "i < num_tags \<Longrightarrow> j < nat plate_count \<Longrightarrow>
     (Tag_on_plate i j, 0, 1) \<in> set (model_variables num_tags ups_per_plate plate_count e)"
  by (force simp: model_variables_def Let_def)

lemma per_tag_constraints:
  assumes "i < length tags"
  shows "Only_enforce_if (Lin_eq (Lin_var (Tag_plate i)) (Lin_const (int j))) (Pos (Tag_on_plate i j))
           \<in> set (plate_assignment_constraints tags j)"
    and "Only_enforce_if (Lin_ne (Lin_var (Tag_plate i)) (Lin_const (int j))) (Neg (Tag_on_plate i j))
           \<in> set (plate_assignment_constraints tags j)"
    and "Always (Multiplication_equality (Prod_tag_plate i j) (Plate_sheet j) (Ups i))
           \<in> set (plate_assignment_constraints tags j)"
    and "Only_enforce_if (Lin_ge (Lin_var (Prod_tag_plate i j)) (Lin_const (QTY (tags ! i))))
           (Pos (Tag_on_plate i j)) \<in> set (plate_assignment_constraints tags j)"
  using assms by (force simp: plate_assignment_constraints_def Let_def)+

lemma plate_used_constraints:
  shows "Only_enforce_if (Bool_or (map (\<lambda>i. Pos (Tag_on_plate i j)) [0..<length tags]))
           (Pos (Plate_used j)) \<in> set (plate_assignment_constraints tags j)"
    and "Only_enforce_if (Bool_and (map negated (map (\<lambda>i. Pos (Tag_on_plate i j)) [0..<length tags])))
           (Neg (Plate_used j)) \<in> set (plate_assignment_constraints tags j)"
  by (simp_all add: plate_assignment_constraints_def Let_def)

lemma active_ups_constraint:
  "i < num_tags \<Longrightarrow>
     Always (Multiplication_equality (Active_ups i j) (Ups i) (Tag_on_plate i j))
       \<in> set (plate_occupancy_constraints num_tags ups_per_plate e j)"
  by (simp add: plate_occupancy_constraints_def Let_def)

lemma total_ups_constraints:
  shows "Always (Lin_eq (Lin_var (Total_ups_plate j)) (Lin_sum (map (\<lambda>i. Active_ups i j) [0..<num_tags])))
           \<in> set (plate_occupancy_constraints num_tags ups_per_plate e j)"
    and "Only_enforce_if (Lin_eq (Lin_var (Total_ups_plate j)) (Lin_const ups_per_plate))
           (Pos (Plate_used j)) \<in> set (plate_occupancy_constraints num_tags ups_per_plate e j)"
    and "Only_enforce_if (Lin_eq (Lin_var (Total_ups_plate j)) (Lin_const 0))
           (Neg (Plate_used j)) \<in> set (plate_occupancy_constraints num_tags ups_per_plate e j)"
  by (simp_all add: plate_occupancy_constraints_def Let_def)

lemma tag_count_constraint:
  "Always (Lin_eq (Lin_var (Tag_count_plate j)) (Lin_sum (map (\<lambda>i. Tag_on_plate i j) [0..<num_tags])))
     \<in> set (plate_occupancy_constraints num_tags ups_per_plate e j)"
  by (simp add: plate_occupancy_constraints_def Let_def)

lemma min_tags_constraint:
  "Only_enforce_if (Lin_ge (Lin_var (Tag_count_plate j)) (Lin_const 2)) (Pos (Plate_used j))
     \<in> set (plate_occupancy_constraints num_tags ups_per_plate True j)"
  by (simp add: plate_occupancy_constraints_def Let_def)

lemma tag_on_plate_bool:
  assumes "satisfies v (build_model tags ups_per_plate plate_count seed_solution)"
    and "i < length tags" and "j < nat plate_count"
  shows "v (Tag_on_plate i j) = 0 \<or> v (Tag_on_plate i j) = 1"
  using satisfies_domain[OF assms(1), of "Tag_on_plate i j" 0 1]
    tag_on_plate_domain[OF assms(2,3)] by (auto simp: variables_of_model)

lemma plate_used_bool:
  assumes "satisfies v (build_model tags ups_per_plate plate_count seed_solution)"
    and "j < nat plate_count"
  shows "v (Plate_used j) = 0 \<or> v (Plate_used j) = 1"
  using satisfies_domain[OF assms(1), of "Plate_used j" 0 1]
    plate_used_domain[OF assms(2)] by (auto simp: variables_of_model)

lemma tag_on_plate_iff:
  assumes "satisfies v (build_model tags ups_per_plate plate_count seed_solution)"
    and "i < length tags" and "j < nat plate_count"
  shows "v (Tag_on_plate i j) = 1 \<longleftrightarrow> v (Tag_plate i) = int j"
proof -
  note c = satisfies_constraint[OF assms(1) assignment_constraint_in_model[OF assms(3)]]
  have a: "v (Tag_on_plate i j) = 1 \<longrightarrow> v (Tag_plate i) = int j"
    using c[OF per_tag_constraints(1)[OF assms(2)]] by simp
  have b: "v (Tag_on_plate i j) = 0 \<longrightarrow> v (Tag_plate i) \<noteq> int j"
    using c[OF per_tag_constraints(2)[OF assms(2)]] by simp
  show ?thesis using a b tag_on_plate_bool[OF assms] by auto
qed

lemma capacity:
  assumes "satisfies v (build_model tags ups_per_plate plate_count seed_solution)"
    and "i < length tags" and "j < nat plate_count" and "v (Tag_on_plate i j) = 1"
  shows "QTY (tags ! i) \<le> v (Ups i) * v (Plate_sheet j)"
proof -
  note c = satisfies_constraint[OF assms(1) assignment_constraint_in_model[OF assms(3)]]
  have "v (Prod_tag_plate i j) = v (Plate_sheet j) * v (Ups i)"
    using c[OF per_tag_constraints(3)[OF assms(2)]] by simp
  moreover have "QTY (tags ! i) \<le> v (Prod_tag_plate i j)"
    using c[OF per_tag_constraints(4)[OF assms(2)]] assms(4) by simp
  ultimately show ?thesis by (simp add: mult.commute)
qed

lemma sum_active_ups:
  assumes "\<forall>i<n. v (Active_ups i j) = v (Ups i) * v (Tag_on_plate i j)"
    and "\<forall>i<n. v (Tag_on_plate i j) = 0 \<or> v (Tag_on_plate i j) = 1"
  shows "sum_list (map v (map (\<lambda>i. Active_ups i j) [0..<n])) = ups_on_plate v n j"
  using assms
proof (induction n)
  case 0
  then show ?case by (simp add: ups_on_plate_def tags_on_plate_def)
next
  case (Suc n)
  have "sum_list (map v (map (\<lambda>i. Active_ups i j) [0..<n])) = ups_on_plate v n j"
    using Suc by simp
  moreover have "v (Active_ups n j) = (if v (Tag_on_plate n j) = 1 then v (Ups n) else 0)"
    using Suc.prems by (metis lessI mult.right_neutral mult_zero_right zero_neq_one)
  ultimately show ?case by (simp add: ups_on_plate_def tags_on_plate_def)
qed

lemma sum_tag_on_plate:
  assumes "\<forall>i<n. v (Tag_on_plate i j) = 0 \<or> v (Tag_on_plate i j) = 1"
  shows "sum_list (map v (map (\<lambda>i. Tag_on_plate i j) [0..<n])) = int (length (tags_on_plate v n j))"
  using assms
proof (induction n)
  case 0
  then show ?case by (simp add: tags_on_plate_def)
next
  case (Suc n)
  have "sum_list (map v (map (\<lambda>i. Tag_on_plate i j) [0..<n])) = int (length (tags_on_plate v n j))"
    using Suc by simp
  moreover have "v (Tag_on_plate n j) = 0 \<or> v (Tag_on_plate n j) = 1" using Suc.prems by simp
  ultimately show ?case by (auto simp: tags_on_plate_def)
qed

lemma total_ups_value:
  assumes "satisfies v (build_model tags ups_per_plate plate_count seed_solution)"
    and "j < nat plate_count"
  shows "v (Total_ups_plate j) = ups_on_plate v (length tags) j"
proof -
  note c = satisfies_constraint[OF assms(1) occupancy_constraint_in_model[OF assms(2)]]
  have "\<forall>i<length tags. v (Active_ups i j) = v (Ups i) * v (Tag_on_plate i j)"
    using c[OF active_ups_constraint] by simp
  moreover have "\<forall>i<length tags. v (Tag_on_plate i j) = 0 \<or> v (Tag_on_plate i j) = 1"
    using tag_on_plate_bool[OF assms(1) _ assms(2)] by simp
  ultimately have "sum_list (map v (map (\<lambda>i. Active_ups i j) [0..<length tags]))
      = ups_on_plate v (length tags) j" by (rule sum_active_ups)
  moreover have "v (Total_ups_plate j) = sum_list (map v (map (\<lambda>i. Active_ups i j) [0..<length tags]))"
    using c[OF total_ups_constraints(1)] by simp
  ultimately show ?thesis by simp
qed

lemma tag_count_value:
  assumes "satisfies v (build_model tags ups_per_plate plate_count seed_solution)"
    and "j < nat plate_count"
  shows "v (Tag_count_plate j) = int (length (tags_on_plate v (length tags) j))"
proof -
  note c = satisfies_constraint[OF assms(1) occupancy_constraint_in_model[OF assms(2)]]
  have "\<forall>i<length tags. v (Tag_on_plate i j) = 0 \<or> v (Tag_on_plate i j) = 1"
    using tag_on_plate_bool[OF assms(1) _ assms(2)] by simp
  then have "sum_list (map v (map (\<lambda>i. Tag_on_plate i j) [0..<length tags]))
      = int (length (tags_on_plate v (length tags) j))" by (rule sum_tag_on_plate)
  moreover have "v (Tag_count_plate j) = sum_list (map v (map (\<lambda>i. Tag_on_plate i j) [0..<length tags]))"
    using c[OF tag_count_constraint] by simp
  ultimately show ?thesis by simp
qed

lemma used_plate_full:
  assumes "satisfies v (build_model tags ups_per_plate plate_count seed_solution)"
    and "j < nat plate_count" and "v (Plate_used j) = 1"
  shows "ups_on_plate v (length tags) j = ups_per_plate"
proof -
  note c = satisfies_constraint[OF assms(1) occupancy_constraint_in_model[OF assms(2)]]
  have "v (Total_ups_plate j) = ups_per_plate"
    using c[OF total_ups_constraints(2)] assms(3) by simp
  then show ?thesis using total_ups_value[OF assms(1,2)] by simp
qed

lemma unused_plate_empty:
  assumes "satisfies v (build_model tags ups_per_plate plate_count seed_solution)"
    and "j < nat plate_count" and "v (Plate_used j) = 0"
  shows "tags_on_plate v (length tags) j = []"
proof -
  note c = satisfies_constraint[OF assms(1) assignment_constraint_in_model[OF assms(2)]]
  have "list_all (literal_true v) (map negated (map (\<lambda>i. Pos (Tag_on_plate i j)) [0..<length tags]))"
    using c[OF plate_used_constraints(2)] assms(3) by simp
  then have "\<forall>i<length tags. v (Tag_on_plate i j) = 0"
    by (simp add: list_all_iff)
  then show ?thesis by (auto simp: tags_on_plate_def filter_empty_conv)
qed

lemma used_plate_nonempty:
  assumes "satisfies v (build_model tags ups_per_plate plate_count seed_solution)"
    and "j < nat plate_count" and "v (Plate_used j) = 1"
  shows "tags_on_plate v (length tags) j \<noteq> []"
proof -
  note c = satisfies_constraint[OF assms(1) assignment_constraint_in_model[OF assms(2)]]
  have "list_ex (literal_true v) (map (\<lambda>i. Pos (Tag_on_plate i j)) [0..<length tags])"
    using c[OF plate_used_constraints(1)] assms(3) by simp
  then have "\<exists>i<length tags. v (Tag_on_plate i j) = 1"
    by (auto simp: list_ex_iff)
  then show ?thesis by (auto simp: tags_on_plate_def filter_empty_conv)
qed

lemma tags_on_plate_by_variable:
  assumes "satisfies v (build_model tags ups_per_plate plate_count seed_solution)"
    and "j < nat plate_count"
  shows "tags_on_plate v (length tags) j
           = filter (\<lambda>i. v (Tag_plate i) = int j) [0..<length tags]"
  unfolding tags_on_plate_def
  by (rule filter_cong) (auto simp: tag_on_plate_iff[OF assms(1) _ assms(2)])

lemma ups_vars_nth: "i < n \<Longrightarrow> ups_vars_list n ! i = Ups i"
  by (simp add: ups_vars_list_def)

lemma tag_to_plate_nth: "i < n \<Longrightarrow> tag_to_plate_vars n ! i = Tag_plate i"
  by (simp add: tag_to_plate_vars_def)

lemma plate_sheets_nth: "j < nat plate_count \<Longrightarrow> plate_sheets_vars plate_count ! j = Plate_sheet j"
  by (simp add: plate_sheets_vars_def)

lemma materialize_results_row:
  assumes "r \<in> set (materialize_results (tag_to_plate_vars (length tags)) (ups_vars_list (length tags))
                      (plate_sheets_vars plate_count) tags plate_count v)"
  shows "\<exists>j i. j < nat plate_count \<and> i < length tags \<and> v (Tag_plate i) = int j \<and>
           PLATE r = 65 + j \<and> EXCESS r = v (Ups i) * v (Plate_sheet j) - QTY (tags ! i)"
proof -
  from assms obtain j i where ji: "j < nat plate_count" "i < length tags"
    "v (tag_to_plate_vars (length tags) ! i) = int j"
    "r = result_row (ups_vars_list (length tags)) (plate_sheets_vars plate_count) tags v j i"
    by (auto simp: materialize_results_def)
  have "EXCESS r = v (Ups i) * v (Plate_sheet j) - QTY (tags ! i)"
    using ji by (simp add: result_row_def Let_def ups_vars_nth plate_sheets_nth)
  moreover have "PLATE r = 65 + j" using ji(4) by (simp add: result_row_def Let_def)
  ultimately show ?thesis using ji by (auto simp: tag_to_plate_nth)
qed

subsection \<open>Capacity\<close>

text \<open>
  Claim C1. For every assignment that satisfies the model built by
  \<^verbatim>\<open>solve_plate_optimization\<close>, a tag \<open>i\<close> on plate \<open>j\<close> (its \<^verbatim>\<open>tag_on_plate[i][j]\<close>
  is true) has \<open>ups[i] * plate_sheets[j] \<ge> QTY\<close>, and every EXCESS field of the results
  materialized from the assignment is at least 0.
\<close>

theorem capacity_and_excess:
  assumes "satisfies v (build_model tags ups_per_plate plate_count seed_solution)"
  shows "(\<forall>i<length tags. \<forall>j<nat plate_count.
            v (Tag_on_plate i j) = 1 \<longrightarrow> QTY (tags ! i) \<le> v (Ups i) * v (Plate_sheet j)) \<and>
         (\<forall>r\<in>set (results (materialize (tag_to_plate_vars (length tags))
                      (ups_vars_list (length tags)) (plate_sheets_vars plate_count)
                      tags plate_count ups_per_plate v)). 0 \<le> EXCESS r)"
proof (intro conjI allI impI ballI)
  fix i j assume "i < length tags" "j < nat plate_count" "v (Tag_on_plate i j) = 1"
  then show "QTY (tags ! i) \<le> v (Ups i) * v (Plate_sheet j)"
    using capacity[OF assms] by blast
next
  fix r
  assume "r \<in> set (results (materialize (tag_to_plate_vars (length tags))
                      (ups_vars_list (length tags)) (plate_sheets_vars plate_count)
                      tags plate_count ups_per_plate v))"
  then have "r \<in> set (materialize_results (tag_to_plate_vars (length tags))
                      (ups_vars_list (length tags)) (plate_sheets_vars plate_count)
                      tags plate_count v)"
    by (simp add: materialize_def Let_def)
  then obtain j i where ji: "j < nat plate_count" "i < length tags" "v (Tag_plate i) = int j"
    "EXCESS r = v (Ups i) * v (Plate_sheet j) - QTY (tags ! i)"
    using materialize_results_row by blast
  have "v (Tag_on_plate i j) = 1" using tag_on_plate_iff[OF assms ji(2,1)] ji(3) by simp
  then have "QTY (tags ! i) \<le> v (Ups i) * v (Plate_sheet j)"
    using capacity[OF assms ji(2,1)] by simp
  then show "0 \<le> EXCESS r" using ji(4) by simp
qed

text \<open>
  Claim C2. For every assignment that satisfies the model and every plate \<open>j\<close>:
  \<^verbatim>\<open>plate_used[j]\<close> is a Boolean, the tags on the plate are those whose plate variable
  is \<open>j\<close>; if the plate is used, it has a tag and the ups of its tags sum to
  \<^verbatim>\<open>ups_per_plate\<close> exactly; if it is not used, no tag is on it and the sum is 0.
\<close>

theorem plate_usage_and_full_occupancy:
  assumes "satisfies v (build_model tags ups_per_plate plate_count seed_solution)"
    and "j < nat plate_count"
  shows "(v (Plate_used j) = 1 \<or> v (Plate_used j) = 0) \<and>
         tags_on_plate v (length tags) j = filter (\<lambda>i. v (Tag_plate i) = int j) [0..<length tags] \<and>
         (v (Plate_used j) = 1 \<longrightarrow>
            tags_on_plate v (length tags) j \<noteq> [] \<and> ups_on_plate v (length tags) j = ups_per_plate) \<and>
         (v (Plate_used j) = 0 \<longrightarrow>
            tags_on_plate v (length tags) j = [] \<and> ups_on_plate v (length tags) j = 0)"
proof -
  have "v (Plate_used j) = 1 \<or> v (Plate_used j) = 0"
    using plate_used_bool[OF assms] by blast
  moreover have "v (Plate_used j) = 1 \<longrightarrow>
      tags_on_plate v (length tags) j \<noteq> [] \<and> ups_on_plate v (length tags) j = ups_per_plate"
    using used_plate_full[OF assms] used_plate_nonempty[OF assms] by blast
  moreover have "v (Plate_used j) = 0 \<longrightarrow>
      tags_on_plate v (length tags) j = [] \<and> ups_on_plate v (length tags) j = 0"
    using unused_plate_empty[OF assms] by (simp add: ups_on_plate_def)
  ultimately show ?thesis using tags_on_plate_by_variable[OF assms] by blast
qed

subsection \<open>The validation's counts\<close>

lemma map_of_count_plate:
  "map_of (count_plate q acc) p =
     (if p = q then Some (case map_of acc q of None \<Rightarrow> 1 | Some c \<Rightarrow> c + 1) else map_of acc p)"
  by (induction acc) auto

lemma keys_count_plate: "set (map fst (count_plate q acc)) = insert q (set (map fst acc))"
proof (induction acc)
  case Nil
  then show ?case by simp
next
  case (Cons a acc)
  obtain p c where a: "a = (p, c)" by (cases a)
  show ?case
  proof (cases "p = q")
    case True
    then show ?thesis using a by auto
  next
    case False
    have "set (map fst (count_plate q (a # acc))) = insert p (set (map fst (count_plate q acc)))"
      using False a by simp
    also have "\<dots> = insert p (insert q (set (map fst acc)))"
      by (simp only: Cons.IH)
    finally show ?thesis using a by auto
  qed
qed

lemma distinct_count_plate:
  "distinct (map fst acc) \<Longrightarrow> distinct (map fst (count_plate q acc))"
proof (induction acc)
  case Nil
  then show ?case by simp
next
  case (Cons a acc)
  obtain p c where a: "a = (p, c)" by (cases a)
  show ?case
  proof (cases "p = q")
    case True
    then show ?thesis using Cons.prems a by simp
  next
    case False
    have "p \<notin> set (map fst (count_plate q acc))"
      using False Cons.prems a by (simp only: keys_count_plate) simp
    then show ?thesis using False Cons a by simp
  qed
qed

lemma fold_count_plate:
  "distinct (map fst acc) \<Longrightarrow>
     distinct (map fst (fold (\<lambda>r counts. count_plate (PLATE r) counts) rows acc)) \<and>
     map_of (fold (\<lambda>r counts. count_plate (PLATE r) counts) rows acc) p =
       (if rows_of_plate p rows = [] then map_of acc p
        else Some ((case map_of acc p of None \<Rightarrow> 0 | Some c \<Rightarrow> c) + length (rows_of_plate p rows)))"
proof (induction rows arbitrary: acc)
  case Nil
  then show ?case by (simp add: rows_of_plate_def)
next
  case (Cons r rows)
  have d: "distinct (map fst (count_plate (PLATE r) acc))"
    using Cons.prems by (rule distinct_count_plate)
  show ?case
    using Cons.IH[OF d]
    by (auto simp: rows_of_plate_def map_of_count_plate split: option.splits)
qed

lemma plate_tag_counts_entry:
  assumes "(p, c) \<in> set (plate_tag_counts rows)"
  shows "c = length (rows_of_plate p rows)"
proof -
  have f: "distinct (map fst (plate_tag_counts rows))"
    "map_of (plate_tag_counts rows) p =
       (if rows_of_plate p rows = [] then None else Some (length (rows_of_plate p rows)))"
    using fold_count_plate[of "[]" rows p] by (simp_all add: plate_tag_counts_def)
  have "map_of (plate_tag_counts rows) p = Some c"
    using assms f(1) by simp
  then show ?thesis using f(2) by (simp split: if_splits)
qed

lemma single_tag_plates_empty:
  assumes "\<forall>p. length (rows_of_plate p (results sol)) \<noteq> 1"
  shows "single_tag_plates sol = []"
proof -
  have "\<forall>x\<in>set (plate_tag_counts (results sol)). snd x \<noteq> 1"
    using plate_tag_counts_entry assms by (metis prod.collapse)
  then show ?thesis
    by (auto simp: single_tag_plates_def filter_empty_conv)
qed

lemma rows_of_plate_concat:
  "rows_of_plate p (concat (map (\<lambda>j. map (f j) (g j)) js)) =
     concat (map (\<lambda>j. filter (\<lambda>r. PLATE r = p) (map (f j) (g j))) js)"
  by (induction js) (auto simp: rows_of_plate_def)

lemma length_concat_single:
  assumes "\<forall>j\<in>set js. j \<noteq> k \<longrightarrow> h j = []" and "distinct js"
  shows "length (concat (map h js)) = (if k \<in> set js then length (h k) else 0)"
  using assms by (induction js) auto

lemma plate_row: "PLATE (result_row ups_vars plate_sheets tags v j i) = 65 + j"
  by (simp add: result_row_def Let_def)

lemma rows_of_plate_materialize:
  "length (rows_of_plate p (materialize_results tag_to_plate ups_vars plate_sheets tags plate_count v))
     = (if 65 \<le> p \<and> p - 65 < nat plate_count
        then length (filter (\<lambda>i. v (tag_to_plate ! i) = int (p - 65)) [0..<length tags])
        else 0)"
proof -
  let ?f = "\<lambda>j. result_row ups_vars plate_sheets tags v j"
  let ?g = "\<lambda>j. filter (\<lambda>i. v (tag_to_plate ! i) = int j) [0..<length tags]"
  let ?h = "\<lambda>j. filter (\<lambda>r. PLATE r = p) (map (?f j) (?g j))"
  have other: "\<forall>j\<in>set [0..<nat plate_count]. j \<noteq> p - 65 \<longrightarrow> ?h j = []"
    by (auto simp: plate_row filter_empty_conv)
  have "length (rows_of_plate p (materialize_results tag_to_plate ups_vars plate_sheets tags plate_count v))
      = length (concat (map ?h [0..<nat plate_count]))"
    unfolding materialize_results_def rows_of_plate_concat by simp
  also have "\<dots> = (if p - 65 \<in> set [0..<nat plate_count] then length (?h (p - 65)) else 0)"
    using length_concat_single[OF other] by simp
  finally have e: "length (rows_of_plate p (materialize_results tag_to_plate ups_vars plate_sheets tags plate_count v))
      = (if p - 65 < nat plate_count then length (?h (p - 65)) else 0)" by simp
  show ?thesis
  proof (cases "65 \<le> p")
    case True
    then have "?h (p - 65) = map (?f (p - 65)) (?g (p - 65))"
      by (auto simp: plate_row filter_id_conv)
    then show ?thesis using e True by simp
  next
    case False
    then have "?h (p - 65) = []" by (auto simp: plate_row filter_empty_conv)
    then show ?thesis using e False by simp
  qed
qed

text \<open>
  Claim C3. With more than 100 tags, an assignment that satisfies the model has no plate
  with exactly one tag; no plate label has exactly one row in the results materialized
  from it, and the validation after the search lists no single-tag plate.
\<close>

theorem large_instance_no_single_tag_plate:
  assumes "satisfies v (build_model tags ups_per_plate plate_count seed_solution)"
    and "length tags > 100"
  shows "(\<forall>j<nat plate_count. length (tags_on_plate v (length tags) j) \<noteq> 1) \<and>
         (\<forall>label. length (rows_of_plate label (results (materialize (tag_to_plate_vars (length tags))
             (ups_vars_list (length tags)) (plate_sheets_vars plate_count)
             tags plate_count ups_per_plate v))) \<noteq> 1) \<and>
         single_tag_plates (materialize (tag_to_plate_vars (length tags))
             (ups_vars_list (length tags)) (plate_sheets_vars plate_count)
             tags plate_count ups_per_plate v) = []"
proof -
  let ?sol = "materialize (tag_to_plate_vars (length tags)) (ups_vars_list (length tags))
     (plate_sheets_vars plate_count) tags plate_count ups_per_plate v"
  have a: "length (tags_on_plate v (length tags) j) \<noteq> 1" if j: "j < nat plate_count" for j
  proof (cases "v (Plate_used j) = 1")
    case True
    have "Only_enforce_if (Lin_ge (Lin_var (Tag_count_plate j)) (Lin_const 2)) (Pos (Plate_used j))
        \<in> set (plate_occupancy_constraints (length tags) ups_per_plate (length tags > 100) j)"
      using min_tags_constraint assms(2) by simp
    from satisfies_constraint[OF assms(1) occupancy_constraint_in_model[OF j this]]
    have "2 \<le> v (Tag_count_plate j)" using True by simp
    then show ?thesis using tag_count_value[OF assms(1) j] by simp
  next
    case False
    then have "v (Plate_used j) = 0" using plate_used_bool[OF assms(1) j] by blast
    then show ?thesis using unused_plate_empty[OF assms(1) j] by simp
  qed
  have res: "results ?sol = materialize_results (tag_to_plate_vars (length tags))
      (ups_vars_list (length tags)) (plate_sheets_vars plate_count) tags plate_count v"
    by (simp add: materialize_def Let_def)
  have b: "length (rows_of_plate label (results ?sol)) \<noteq> 1" for label
  proof (cases "65 \<le> label \<and> label - 65 < nat plate_count")
    case True
    then have j: "label - 65 < nat plate_count" by simp
    have "length (rows_of_plate label (results ?sol))
        = (if 65 \<le> label \<and> label - 65 < nat plate_count
           then length (filter (\<lambda>i. v (tag_to_plate_vars (length tags) ! i) = int (label - 65))
                          [0..<length tags])
           else 0)"
      unfolding res by (rule rows_of_plate_materialize)
    also have "\<dots> = length (filter (\<lambda>i. v (tag_to_plate_vars (length tags) ! i) = int (label - 65))
                          [0..<length tags])"
      using True by (rule if_P)
    also have "filter (\<lambda>i. v (tag_to_plate_vars (length tags) ! i) = int (label - 65)) [0..<length tags]
        = filter (\<lambda>i. v (Tag_plate i) = int (label - 65)) [0..<length tags]"
      by (rule filter_cong) (auto simp: tag_to_plate_nth)
    also have "\<dots> = tags_on_plate v (length tags) (label - 65)"
      using tags_on_plate_by_variable[OF assms(1) j] by simp
    finally show ?thesis using a[OF j] by simp
  next
    case False
    have "length (rows_of_plate label (results ?sol))
        = (if 65 \<le> label \<and> label - 65 < nat plate_count
           then length (filter (\<lambda>i. v (tag_to_plate_vars (length tags) ! i) = int (label - 65))
                          [0..<length tags])
           else 0)"
      unfolding res by (rule rows_of_plate_materialize)
    also have "\<dots> = 0" using False by (rule if_not_P)
    finally show ?thesis by simp
  qed
  show ?thesis using a b single_tag_plates_empty[of ?sol] by blast
qed

lemma sum_list_filter_split:
  "sum_list (map f xs) = sum_list (map f (filter P xs)) + sum_list (map f (filter (\<lambda>x. \<not> P x) xs))"
  for f :: "nat \<Rightarrow> int"
  by (induction xs) auto

lemma sum_list_at_least_length:
  "\<forall>x\<in>set xs. 1 \<le> f x \<Longrightarrow> int (length xs) \<le> sum_list (map f xs)"
  for f :: "nat \<Rightarrow> int"
  by (induction xs) auto

lemma plate_sheet_positive:
  assumes "satisfies v (build_model tags ups_per_plate plate_count seed_solution)"
    and "j < nat plate_count"
  shows "1 \<le> v (Plate_sheet j)"
  using satisfies_domain[OF assms(1), of "Plate_sheet j" 1 10000]
    plate_sheet_domain[OF assms(2)] by (auto simp: variables_of_model)

lemma plate_sheet_at_most:
  assumes "satisfies v (build_model tags ups_per_plate plate_count seed_solution)"
    and "j < nat plate_count"
  shows "v (Plate_sheet j) \<le> 10000"
  using satisfies_domain[OF assms(1), of "Plate_sheet j" 1 10000]
    plate_sheet_domain[OF assms(2)] by (auto simp: variables_of_model)

text \<open>
  Claim C4, as the code has it. The objective is the sum of \<^verbatim>\<open>plate_sheets\<close> over all
  plates, used or not: it is the sheets of the used plates plus the sheets of the unused
  ones, the sheets of every plate lie in 1..10000, so the unused plates add at least their
  number; \<^verbatim>\<open>totalSheets\<close> of the materialized summary is that same sum.
\<close>

theorem objective_counts_every_plate:
  assumes "satisfies v (build_model tags ups_per_plate plate_count seed_solution)"
  shows "objective_value v (build_model tags ups_per_plate plate_count seed_solution)
           = sheets_of v (used_plates v plate_count) + sheets_of v (unused_plates v plate_count) \<and>
         int (length (unused_plates v plate_count)) \<le> sheets_of v (unused_plates v plate_count) \<and>
         (\<forall>j<nat plate_count. 1 \<le> v (Plate_sheet j) \<and> v (Plate_sheet j) \<le> 10000) \<and>
         totalSheets (summary (materialize (tag_to_plate_vars (length tags))
             (ups_vars_list (length tags)) (plate_sheets_vars plate_count)
             tags plate_count ups_per_plate v))
           = objective_value v (build_model tags ups_per_plate plate_count seed_solution)"
proof -
  let ?m = "build_model tags ups_per_plate plate_count seed_solution"
  have obj: "objective_value v ?m = sum_list (map (\<lambda>j. v (Plate_sheet j)) [0..<nat plate_count])"
    by (simp add: objective_value_def build_model_def Let_def plate_sheets_vars_def comp_def)
  have split: "objective_value v ?m
      = sheets_of v (used_plates v plate_count) + sheets_of v (unused_plates v plate_count)"
    unfolding obj sheets_of_def used_plates_def unused_plates_def
    by (rule sum_list_filter_split)
  have pos: "\<forall>j<nat plate_count. 1 \<le> v (Plate_sheet j)"
    using plate_sheet_positive[OF assms] by blast
  then have "\<forall>j\<in>set (unused_plates v plate_count). 1 \<le> v (Plate_sheet j)"
    by (simp add: unused_plates_def)
  then have low: "int (length (unused_plates v plate_count)) \<le> sheets_of v (unused_plates v plate_count)"
    unfolding sheets_of_def by (rule sum_list_at_least_length)
  have range: "\<forall>j<nat plate_count. 1 \<le> v (Plate_sheet j) \<and> v (Plate_sheet j) \<le> 10000"
    using plate_sheet_positive[OF assms] plate_sheet_at_most[OF assms] by blast
  have tot: "totalSheets (summary (materialize (tag_to_plate_vars (length tags))
             (ups_vars_list (length tags)) (plate_sheets_vars plate_count)
             tags plate_count ups_per_plate v)) = objective_value v ?m"
    by (simp add: materialize_def Let_def objective_value_def build_model_def)
  show ?thesis using split low range tot by blast
qed

subsection \<open>The tracker\<close>







subsection \<open>Instances without plates or without ups\<close>

lemma no_assignment_for_degenerate_instance:
  assumes "plate_count \<le> 0 \<or> ups_per_plate \<le> 0" and "tags \<noteq> []"
  shows "\<not> satisfies v (build_model tags ups_per_plate plate_count seed_solution)"
proof
  assume sat: "satisfies v (build_model tags ups_per_plate plate_count seed_solution)"
  have 0: "0 < length tags" using assms(2) by simp
  have "0 \<le> v (Tag_plate 0) \<and> v (Tag_plate 0) \<le> plate_count - 1"
    using satisfies_domain[OF sat, of "Tag_plate 0" 0 "plate_count - 1"]
      tag_plate_domain[OF 0] by (simp add: variables_of_model)
  moreover have "1 \<le> v (Ups 0) \<and> v (Ups 0) \<le> ups_per_plate"
    using satisfies_domain[OF sat, of "Ups 0" 1 ups_per_plate]
      ups_domain[OF 0] by (simp add: variables_of_model)
  ultimately show False using assms(1) by linarith
qed

text \<open>
  Claim C9, as the code has it. With no plate or no ups per plate and at least one tag,
  no assignment satisfies the model that is built; the solver is called all the same, a
  sound solver reports nothing, and the function returns the same error object as for any
  search without a solution.
\<close>

theorem degenerate_instance_is_no_solution:
  assumes "plate_count = 0 \<or> ups_per_plate = 0" and "tags \<noteq> []"
    and "sound_solver solver" and "length seed_solution \<le> length tags"
  shows "(\<forall>v. \<not> satisfies v (build_model tags ups_per_plate plate_count seed_solution)) \<and>
         solver (build_model tags ups_per_plate plate_count seed_solution) = [] \<and>
         solve_plate_optimization solver now tags ups_per_plate plate_count seed_solution
           = Inr (Error_object ''No solution found'')"
proof -
  let ?m = "build_model tags ups_per_plate plate_count seed_solution"
  have un: "\<forall>v. \<not> satisfies v ?m"
    using no_assignment_for_degenerate_instance[OF _ assms(2)] assms(1) by auto
  have "\<forall>n\<in>set (solver ?m). satisfies (Value n) ?m"
    using assms(3) by (simp add: sound_solver_def)
  then have e: "solver ?m = []" using un by (cases "solver ?m") auto
  then have "tracker_after_search solver now tags ups_per_plate plate_count seed_solution
      = new_callback tags now"
    by (simp add: tracker_after_search_def Let_def)
  then have "solve_plate_optimization solver now tags ups_per_plate plate_count seed_solution
      = Inr (Error_object ''No solution found'')"
    using assms(4) by (simp add: solve_plate_optimization_def Let_def new_callback_def)
  then show ?thesis using un e by blast
qed

section \<open>The claims about the seeder\<close>

text \<open>
  Claim C8, as the code has it. With at least one plate the partition is built without
  error. If every non-empty group of it has a non-zero total quantity, the seeder returns
  one triple per tag, each with ups of at least 1 (tags of quantity 0 included); if a
  non-empty group has the total 0, the seeder raises ZeroDivisionError.
\<close>

theorem greedy_initialize_zero_quantity:
  assumes "1 \<le> plate_count"
  shows "\<exists>parts. greedy_partitions tags plate_count = Inr parts \<and>
           (if \<exists>g\<in>set parts. g \<noteq> [] \<and> sum_list (map QTY g) = 0
            then greedy_initialize round_share tags ups_per_plate plate_count
                   = Some (Inl ZeroDivisionError)
            else \<exists>seed. greedy_initialize round_share tags ups_per_plate plate_count
                          = Some (Inr seed) \<and>
                   mset (map fst seed) = mset tags \<and> (\<forall>a\<in>set seed. 1 \<le> snd (snd a)))"
proof -
  obtain parts where parts: "greedy_partitions tags plate_count = Inr parts"
    "mset (concat parts) = mset tags"
    using greedy_partitions_returns[OF assms] by blast
  let ?igs = "zip [0..<length parts] parts"
  have sn: "snd ` set ?igs = set parts"
    using snd_zip_upt[of parts] by (metis set_map)
  show ?thesis
  proof (cases "\<exists>g\<in>set parts. g \<noteq> [] \<and> sum_list (map QTY g) = 0")
    case True
    then have "\<exists>x\<in>set ?igs. snd x \<noteq> [] \<and> sum_list (map QTY (snd x)) = 0"
      using sn by (metis (no_types, lifting) imageE)
    then have "greedy_initialize round_share tags ups_per_plate plate_count
                 = Some (Inl ZeroDivisionError)"
      using parts(1) by (simp add: greedy_initialize_def seed_groups_zero)
    then show ?thesis using True parts(1) by simp
  next
    case False
    then have a: "\<forall>x\<in>set ?igs. snd x \<noteq> [] \<longrightarrow> sum_list (map QTY (snd x)) \<noteq> 0"
      using sn by (metis (no_types, lifting) imageI)
    have b: "\<forall>a\<in>set ([]::(tag \<times> nat \<times> int) list). 1 \<le> snd (snd a)" by simp
    obtain seed where seed: "seed_groups round_share ups_per_plate ?igs [] = Some (Inr seed)"
      "map fst seed = map fst ([]::(tag \<times> nat \<times> int) list) @ concat (map snd ?igs)"
      "\<forall>a\<in>set seed. 1 \<le> snd (snd a)"
      using seed_groups_returns[OF a b] by blast
    have "map fst seed = concat parts" using seed(2) by (simp add: snd_zip_upt)
    then have "mset (map fst seed) = mset tags" using parts(2) by simp
    moreover have "greedy_initialize round_share tags ups_per_plate plate_count = Some (Inr seed)"
      using parts(1) seed(1) by (simp add: greedy_initialize_def)
    ultimately show ?thesis using False parts(1) seed(3) by simp
  qed
qed

text \<open>
  Claim C10. For a non-empty group with a positive total quantity and a capacity of at
  least 1, \<^verbatim>\<open>assign_ups_proportional\<close> returns a list with one ups of at least 1 per tag,
  whose sum is the capacity unless all ups are 1. A step of the increment loop raises the
  sum by exactly 1 and the loop returns with the sum at the capacity (or where it started,
  if that was higher); a step of the decrement loop lowers the sum by exactly 1 and the
  loop returns with the sum at the capacity or with every value equal to 1.
\<close>

theorem assign_ups_proportional_terminates:
  assumes "grp \<noteq> []" and "0 < sum_list (map QTY grp)" and "1 \<le> ups_per_plate"
  shows "(\<exists>ups. assign_ups_proportional round_share grp ups_per_plate = Some (Inr ups) \<and>
            length ups = length grp \<and> (\<forall>u\<in>set ups. 1 \<le> u) \<and>
            (sum_list ups = ups_per_plate \<or> (ups_per_plate < sum_list ups \<and> (\<forall>u\<in>set ups. u = 1)))) \<and>
         (\<forall>raw. raw \<noteq> [] \<longrightarrow>
            (\<exists>k. min_index raw = Inr k \<and> sum_list (increment_step raw k) = sum_list raw + 1)) \<and>
         (\<forall>raw. raw \<noteq> [] \<longrightarrow>
            (\<exists>k. max_index raw = Inr k \<and> sum_list (decrement_step raw k) = sum_list raw - 1)) \<and>
         (\<forall>raw. raw \<noteq> [] \<longrightarrow>
            (\<exists>raw'. increment_loop ups_per_plate raw = Some (Inr raw') \<and>
               sum_list raw' = max ups_per_plate (sum_list raw))) \<and>
         (\<forall>raw. raw \<noteq> [] \<and> (\<forall>x\<in>set raw. 1 \<le> x) \<longrightarrow>
            (\<exists>raw'. decrement_loop ups_per_plate raw = Some (Inr raw') \<and>
               (sum_list raw' = min ups_per_plate (sum_list raw) \<or>
                (ups_per_plate < sum_list raw' \<and> (\<forall>y\<in>set raw'. y = 1)))))"
proof -
  have nz: "sum_list (map QTY grp) \<noteq> 0" using assms(2) by simp
  have a: "\<exists>ups. assign_ups_proportional round_share grp ups_per_plate = Some (Inr ups) \<and>
            length ups = length grp \<and> (\<forall>u\<in>set ups. 1 \<le> u) \<and>
            (sum_list ups = ups_per_plate \<or> (ups_per_plate < sum_list ups \<and> (\<forall>u\<in>set ups. u = 1)))"
    using assign_ups_proportional_returns[OF assms(1) nz] by blast
  have b: "\<exists>k. min_index raw = Inr k \<and> sum_list (increment_step raw k) = sum_list raw + 1"
    if "raw \<noteq> []" for raw
    using min_index_nonempty[OF that] sum_list_increment_step by blast
  have c: "\<exists>k. max_index raw = Inr k \<and> sum_list (decrement_step raw k) = sum_list raw - 1"
    if "raw \<noteq> []" for raw
    using max_index_nonempty[OF that] sum_list_decrement_step by blast
  have d: "\<exists>raw'. increment_loop ups_per_plate raw = Some (Inr raw') \<and>
               sum_list raw' = max ups_per_plate (sum_list raw)"
    if "raw \<noteq> []" for raw
    using increment_loop_returns[OF that] by blast
  have e: "\<exists>raw'. decrement_loop ups_per_plate raw = Some (Inr raw') \<and>
               (sum_list raw' = min ups_per_plate (sum_list raw) \<or>
                (ups_per_plate < sum_list raw' \<and> (\<forall>y\<in>set raw'. y = 1)))"
    if "raw \<noteq> [] \<and> (\<forall>x\<in>set raw. 1 \<le> x)" for raw
    using decrement_loop_returns[of raw ups_per_plate] that by blast
  show ?thesis using a b c d e by blast
qed

text \<open>
  Claim C10, witness: a group of 3 and 1 copies with 4 ups per plate.
\<close>

theorem assign_ups_proportional_terminates_witness:
  "[plain_tag 3, plain_tag 1] \<noteq> [] \<and> 0 < sum_list (map QTY [plain_tag 3, plain_tag 1]) \<and>
   (1::int) \<le> 4 \<and>
   (\<exists>ups. assign_ups_proportional exact_round_share [plain_tag 3, plain_tag 1] 4 = Some (Inr ups) \<and>
      length ups = 2 \<and> sum_list ups = 4)"
proof -
  have h1: "[plain_tag 3, plain_tag 1] \<noteq> []" by simp
  have h2: "0 < sum_list (map QTY [plain_tag 3, plain_tag 1])" by (simp add: plain_tag_def)
  have h3: "(1::int) \<le> 4" by simp
  have v: "assign_ups_proportional exact_round_share [plain_tag 3, plain_tag 1] 4 = Some (Inr [3, 1])"
    by code_simp
  from assign_ups_proportional_terminates[OF h1 h2 h3, of exact_round_share]
  have "\<exists>ups. assign_ups_proportional exact_round_share [plain_tag 3, plain_tag 1] 4 = Some (Inr ups) \<and>
      length ups = length [plain_tag 3, plain_tag 1] \<and> (\<forall>u\<in>set ups. 1 \<le> u) \<and>
      (sum_list ups = 4 \<or> (4 < sum_list ups \<and> (\<forall>u\<in>set ups. u = 1)))" by blast
  then have "\<exists>ups. assign_ups_proportional exact_round_share [plain_tag 3, plain_tag 1] 4 = Some (Inr ups) \<and>
      length ups = 2 \<and> sum_list ups = 4" using v by simp
  then show ?thesis using h1 h2 h3 by blast
qed

text \<open>
  Claim C5 against the code. 101 tags, one of 1000 copies and 100 of one copy, on two
  plates: the first pass leaves the big tag alone on plate 0; the repair pass clears the
  plate, sets its load to 0, finds that plate 0 now has the lowest load, and puts the tag
  back. The partition that reaches the seeder still has a plate with exactly one tag.
\<close>

theorem repair_pass_leaves_single_tag_plate:
  "length one_big_tag = 101 \<and>
   initial_balanced_partition_no_singles one_big_tag 2
     = Inr [[plain_tag 1000], replicate 100 (plain_tag 1)] \<and>
   greedy_partitions one_big_tag 2 = Inr [[plain_tag 1000], replicate 100 (plain_tag 1)]"
  by code_simp

text \<open>
  Claim C8, as stated, fails: with two plates the tag of quantity 0 is alone in its group,
  and the seeder raises ZeroDivisionError.
\<close>

theorem zero_quantity_group_raises:
  "greedy_partitions [plain_tag 5, plain_tag 0] 2 = Inr [[plain_tag 5], [plain_tag 0]] \<and>
   greedy_initialize exact_round_share [plain_tag 5, plain_tag 0] 4 2 = Some (Inl ZeroDivisionError)"
  by code_simp

text \<open>
  Claim C8, witness of the statement above: a tag of quantity 0 beside a tag of quantity 5
  on one plate.
\<close>

theorem greedy_initialize_zero_quantity_witness:
  "(1::int) \<le> 1 \<and>
   greedy_partitions [plain_tag 5, plain_tag 0] 1 = Inr [[plain_tag 5, plain_tag 0]] \<and>
   (\<exists>seed. greedy_initialize exact_round_share [plain_tag 5, plain_tag 0] 4 1 = Some (Inr seed) \<and>
      mset (map fst seed) = mset [plain_tag 5, plain_tag 0] \<and> list_all (\<lambda>a. 1 \<le> snd (snd a)) seed)"
proof -
  have h: "(1::int) \<le> 1" by simp
  have p: "greedy_partitions [plain_tag 5, plain_tag 0] 1 = Inr [[plain_tag 5, plain_tag 0]]"
    by code_simp
  have q: "\<not> (\<exists>g\<in>set [[plain_tag 5, plain_tag 0]]. g \<noteq> [] \<and> sum_list (map QTY g) = 0)"
    by (simp add: plain_tag_def)
  from greedy_initialize_zero_quantity[OF h, of "[plain_tag 5, plain_tag 0]" exact_round_share 4]
  have "\<exists>seed. greedy_initialize exact_round_share [plain_tag 5, plain_tag 0] 4 1 = Some (Inr seed) \<and>
      mset (map fst seed) = mset [plain_tag 5, plain_tag 0] \<and> (\<forall>a\<in>set seed. 1 \<le> snd (snd a))"
    unfolding p using q by (simp del: set_simps)
  then show ?thesis using h p by (simp add: list_all_iff)
qed

section \<open>Concrete runs\<close>

lemma three_tags_feasible:
  "satisfies three_tags_assignment (build_model three_tags 4 2 [])"
  by code_simp

lemma two_tags_feasible:
  "satisfies two_tags_assignment (build_model two_tags 2 2 [])"
  by code_simp

text \<open>
  Claim C1, witness: the three tags on two plates, where tag 0 (100 copies) is on plate 1
  with 3 ups and 34 sheets.
\<close>

theorem capacity_and_excess_witness:
  "satisfies three_tags_assignment (build_model three_tags 4 2 []) \<and>
   QTY (three_tags ! 0) \<le> three_tags_assignment (Ups 0) * three_tags_assignment (Plate_sheet 1) \<and>
   list_all (\<lambda>r. 0 \<le> EXCESS r)
     (results (materialize (tag_to_plate_vars (length three_tags)) (ups_vars_list (length three_tags))
        (plate_sheets_vars 2) three_tags 2 4 three_tags_assignment))"
proof -
  note c = capacity_and_excess[OF three_tags_feasible]
  have on: "three_tags_assignment (Tag_on_plate 0 1) = 1"
    by (simp add: three_tags_assignment_def assignment_of_def)
  have "0 < length three_tags" "1 < nat 2" by (simp_all add: three_tags_def)
  then have "QTY (three_tags ! 0) \<le> three_tags_assignment (Ups 0) * three_tags_assignment (Plate_sheet 1)"
    using c on by blast
  then show ?thesis using c three_tags_feasible by (simp add: list_all_iff)
qed

text \<open>
  Claim C2, witness: plate 1 of the three-tag instance is used and its ups sum to 4.
\<close>

theorem plate_usage_and_full_occupancy_witness:
  "satisfies three_tags_assignment (build_model three_tags 4 2 []) \<and> (1::nat) < nat 2 \<and>
   three_tags_assignment (Plate_used 1) = 1 \<and>
   ups_on_plate three_tags_assignment (length three_tags) 1 = 4"
proof -
  have j: "(1::nat) < nat 2" by simp
  have u: "three_tags_assignment (Plate_used 1) = 1"
    by (simp add: three_tags_assignment_def assignment_of_def)
  from plate_usage_and_full_occupancy[OF three_tags_feasible j] u
  have "ups_on_plate three_tags_assignment (length three_tags) 1 = 4" by simp
  then show ?thesis using three_tags_feasible j u by simp
qed

text \<open>
  Claim C6 against the code. Three tags (at most 100), four ups per plate, two plates: the
  assignment with the tag of 50 copies alone on plate 0 with all 4 ups satisfies the
  model, although plate 0 holds exactly one tag and its ups sum to \<^verbatim>\<open>ups_per_plate\<close>.
  The constraint on \<^verbatim>\<open>forbidden_combo\<close> is enforced only where that variable is true,
  and the variable is fixed to 0.
\<close>

theorem single_saturated_plate_is_feasible:
  "length three_tags \<le> 100 \<and>
   satisfies three_tags_assignment (build_model three_tags 4 2 []) \<and>
   tags_on_plate three_tags_assignment (length three_tags) 0 = [1] \<and>
   ups_on_plate three_tags_assignment (length three_tags) 0 = 4 \<and>
   objective_value three_tags_assignment (build_model three_tags 4 2 []) = 47"
  by code_simp

text \<open>
  Claim C4, as stated, fails: with both tags on plate 0, plate 1 is not used, the used
  plates carry 1 sheet, and yet the objective and \<^verbatim>\<open>totalSheets\<close> are 2.
\<close>

theorem unused_plate_adds_to_objective:
  "satisfies two_tags_assignment (build_model two_tags 2 2 []) \<and>
   two_tags_assignment (Plate_used 1) = 0 \<and>
   used_plates two_tags_assignment 2 = [0] \<and>
   sheets_of two_tags_assignment (used_plates two_tags_assignment 2) = 1 \<and>
   objective_value two_tags_assignment (build_model two_tags 2 2 []) = 2 \<and>
   totalSheets (summary (materialize (tag_to_plate_vars (length two_tags))
      (ups_vars_list (length two_tags)) (plate_sheets_vars 2) two_tags 2 2 two_tags_assignment)) = 2"
  by code_simp

text \<open>
  Claim C4, witness of the statement above: two tags on the first of two plates.
\<close>

theorem objective_counts_every_plate_witness:
  "satisfies two_tags_assignment (build_model two_tags 2 2 []) \<and>
   objective_value two_tags_assignment (build_model two_tags 2 2 [])
     = sheets_of two_tags_assignment (used_plates two_tags_assignment 2)
       + sheets_of two_tags_assignment (unused_plates two_tags_assignment 2) \<and>
   int (length (unused_plates two_tags_assignment 2))
     \<le> sheets_of two_tags_assignment (unused_plates two_tags_assignment 2)"
  using objective_counts_every_plate[OF two_tags_feasible] two_tags_feasible by blast


text \<open>
  Claim C9, as stated, fails: for one tag with no plate, and for one tag with no ups per
  plate, the function returns the no-solution object, not an error of its own kind.
\<close>

theorem no_invalid_instance_error:
  "sound_solver no_report \<and>
   solve_plate_optimization no_report 0 [plain_tag 5] 4 0 [] = Inr (Error_object ''No solution found'') \<and>
   solve_plate_optimization no_report 0 [plain_tag 5] 0 1 [] = Inr (Error_object ''No solution found'')"
  by (simp add: sound_solver_def no_report_def solve_plate_optimization_def
      tracker_after_search_def Let_def new_callback_def)

text \<open>
  Claim C9, witness of the statement above: one tag and no plate.
\<close>

theorem degenerate_instance_is_no_solution_witness:
  "((0::int) = 0 \<or> (4::int) = 0) \<and> [plain_tag 5] \<noteq> [] \<and> sound_solver no_report \<and>
   length ([]::(tag \<times> nat \<times> int) list) \<le> length [plain_tag 5] \<and>
   no_report (build_model [plain_tag 5] 4 0 []) = [] \<and>
   solve_plate_optimization no_report 0 [plain_tag 5] 4 0 [] = Inr (Error_object ''No solution found'')"
proof -
  have h1: "(0::int) = 0 \<or> (4::int) = 0" by simp
  have h2: "[plain_tag 5] \<noteq> []" by simp
  have h3: "sound_solver no_report" by (simp add: sound_solver_def no_report_def)
  have h4: "length ([]::(tag \<times> nat \<times> int) list) \<le> length [plain_tag 5]" by simp
  show ?thesis
    using degenerate_instance_is_no_solution[OF h1 h2 h3 h4, of 0] h1 h2 h3 h4 by blast
qed

lemma many_tags_feasible:
  "satisfies many_tags_assignment (build_model many_tags 101 1 [])"
  by code_simp

text \<open>
  Claim C3, witness: 101 tags on one plate.
\<close>

theorem large_instance_no_single_tag_plate_witness:
  "satisfies many_tags_assignment (build_model many_tags 101 1 []) \<and> length many_tags > 100 \<and>
   single_tag_plates (materialize (tag_to_plate_vars (length many_tags))
      (ups_vars_list (length many_tags)) (plate_sheets_vars 1) many_tags 1 101
      many_tags_assignment) = []"
proof -
  have h: "length many_tags > 100" by (simp add: many_tags_def)
  show ?thesis
    using large_instance_no_single_tag_plate[OF many_tags_feasible h] many_tags_feasible h by blast
qed

end
